(* ===== verification/Fed_Prelude.thy ===== *)
theory Fed_Prelude
  imports Main "HOL-Library.AList" "HOL-Library.Sublist" "HOL-Library.Word"
    "HOL-Library.Char_ord" "HOL-Library.List_Lexorder"
begin

text \<open>
  Shared vocabulary of the development: the machine integer types, the parts of the Rust
  standard library the program uses on strings (a \<open>string\<close> is the UTF-8 byte sequence of a
  Rust \<open>str\<close>), and the hash-map interface with its association-list model.  Nothing here is
  specific to one component.
\<close>

named_theorems str_simps \<open>lookup and split facts on strings\<close>
named_theorems hm_simps \<open>lookup laws of the hash-map model\<close>

section \<open>Machine integers and time\<close>

type_synonym u16 = "16 word"
type_synonym u32 = "32 word"
type_synonym u64 = "64 word"

text \<open>An \<open>Instant\<close> and a \<open>Duration\<close> are counted in nanoseconds.\<close>

type_synonym instant = nat
type_synonym duration = nat

definition duration_from_secs :: "u64 \<Rightarrow> duration" where
  "duration_from_secs s = unat s * 1000000000"

text \<open>\<open>Duration::as_secs\<close>: whole seconds.\<close>

definition as_secs :: "duration \<Rightarrow> nat" where
  "as_secs d = d div 1000000000"

text \<open>
  The system clock in seconds since 1970; a clock that is set before that reads zero.  The argument is
  \<open>SystemTime::now().duration_since(UNIX_EPOCH)\<close>, \<open>None\<close> when it fails.
\<close>

definition unix_now :: "duration option \<Rightarrow> u64" where
  "unix_now since_epoch = (case since_epoch of Some d \<Rightarrow> of_nat (as_secs d) | None \<Rightarrow> 0)"

text \<open>\<open>Instant::elapsed\<close> and \<open>saturating_duration_since\<close> saturate at zero, as \<open>nat\<close> subtraction.\<close>

definition elapsed :: "instant \<Rightarrow> instant \<Rightarrow> duration" where
  "elapsed now t0 = now - t0"

lemma as_secs_from_secs [simp]: "as_secs (duration_from_secs s) = unat s"
  by (simp add: as_secs_def duration_from_secs_def)

lemma unix_now_from_secs [simp]: "unix_now (Some (duration_from_secs s)) = s" "unix_now None = 0"
  by (simp_all add: unix_now_def)

lemma duration_from_secs_eq_0 [simp]: "duration_from_secs s = 0 \<longleftrightarrow> s = 0"
  by (simp add: duration_from_secs_def unat_eq_zero)

section \<open>Strings\<close>

text \<open>\<open>str::find\<close> with a string pattern: the byte index of the first occurrence.\<close>

fun str_find :: "string \<Rightarrow> string \<Rightarrow> nat option" where
  "str_find p [] = (if p = [] then Some 0 else None)"
| "str_find p (c # s) = (if prefix p (c # s) then Some 0 else map_option Suc (str_find p s))"

definition str_contains :: "string \<Rightarrow> string \<Rightarrow> bool" where
  "str_contains p s \<longleftrightarrow> str_find p s \<noteq> None"

definition split_once :: "string \<Rightarrow> string \<Rightarrow> (string \<times> string) option" where
  "split_once p s =
     (case str_find p s of None \<Rightarrow> None | Some i \<Rightarrow> Some (take i s, drop (i + length p) s))"

definition strip_prefix :: "string \<Rightarrow> string \<Rightarrow> string option" where
  "strip_prefix p s = (if prefix p s then Some (drop (length p) s) else None)"

definition strip_suffix :: "string \<Rightarrow> string \<Rightarrow> string option" where
  "strip_suffix p s = map_option rev (strip_prefix (rev p) (rev s))"

text \<open>Removing any of the given patterns from the front for as long as one matches.\<close>

function trim_start_of :: "string list \<Rightarrow> string \<Rightarrow> string" where
  "trim_start_of ws s =
     (case find (\<lambda>w. w \<noteq> [] \<and> prefix w s) ws of
        None \<Rightarrow> s
      | Some w \<Rightarrow> trim_start_of ws (drop (length w) s))"
  by pat_completeness auto
termination
proof (relation "measure (\<lambda>(ws, s). length s)")
  show "wf (measure (\<lambda>(ws, s). length s))" by simp
next
  fix ws s w
  assume "find (\<lambda>w. w \<noteq> [] \<and> prefix w s) ws = Some w"
  then have "w \<noteq> []" "prefix w s" by (auto simp: find_Some_iff)
  then show "((ws, drop (length w) s), (ws, s)) \<in> measure (\<lambda>(ws, s). length s)"
    by (cases s; cases w) auto
qed

declare trim_start_of.simps [simp del]

definition trim_end_of :: "string list \<Rightarrow> string \<Rightarrow> string" where
  "trim_end_of ws s = rev (trim_start_of (map rev ws) (rev s))"

definition trim_end_matches :: "string \<Rightarrow> string \<Rightarrow> string" where
  "trim_end_matches p s = trim_end_of [p] s"

text \<open>The UTF-8 encodings of the Unicode \<open>White_Space\<close> characters, which \<open>str::trim\<close> removes.\<close>

definition unicode_ws :: "string list" where
  "unicode_ws =
     [[CHR 0x09], [CHR 0x0A], [CHR 0x0B], [CHR 0x0C], [CHR 0x0D], [CHR 0x20],
      [CHR 0xC2, CHR 0x85], [CHR 0xC2, CHR 0xA0], [CHR 0xE1, CHR 0x9A, CHR 0x80]]
     @ map (\<lambda>b. [CHR 0xE2, CHR 0x80, b])
         [CHR 0x80, CHR 0x81, CHR 0x82, CHR 0x83, CHR 0x84, CHR 0x85, CHR 0x86, CHR 0x87,
          CHR 0x88, CHR 0x89, CHR 0x8A, CHR 0xA8, CHR 0xA9, CHR 0xAF]
     @ [[CHR 0xE2, CHR 0x81, CHR 0x9F], [CHR 0xE3, CHR 0x80, CHR 0x80]]"

definition str_trim :: "string \<Rightarrow> string" where
  "str_trim s = trim_end_of unicode_ws (trim_start_of unicode_ws s)"

text \<open>\<open>str::split\<close> on a character: always at least one part.\<close>

fun split_on :: "char \<Rightarrow> string \<Rightarrow> string list" where
  "split_on c [] = [[]]"
| "split_on c (x # xs) =
     (if x = c then [] # split_on c xs
      else (x # hd (split_on c xs)) # tl (split_on c xs))"

text \<open>
  \<open>str::lines\<close>: split at line feeds, one carriage return before a line feed dropped, no empty
  last line.
\<close>

definition strip_cr :: "string \<Rightarrow> string" where
  "strip_cr l = (case strip_suffix [CHR 0x0D] l of None \<Rightarrow> l | Some l' \<Rightarrow> l')"

definition str_lines :: "string \<Rightarrow> string list" where
  "str_lines s =
     (let ps = split_on (CHR 0x0A) s
      in map strip_cr (butlast ps) @ (if last ps = [] then [] else [last ps]))"

text \<open>\<open>str::split_whitespace\<close>: the maximal runs of non-whitespace.\<close>

fun take_token :: "string \<Rightarrow> string \<times> string" where
  "take_token [] = ([], [])"
| "take_token (c # s) =
     (if find (\<lambda>w. w \<noteq> [] \<and> prefix w (c # s)) unicode_ws = None
      then let (t, r) = take_token s in (c # t, r)
      else ([], c # s))"

lemma trim_start_of_length: "length (trim_start_of ws s) \<le> length s"
proof (induction ws s rule: trim_start_of.induct)
  case (1 ws s)
  then show ?case
    by (subst trim_start_of.simps) (force split: option.split intro: order_trans)
qed

lemma take_token_length: "length (snd (take_token s)) \<le> length s"
  by (induction s) (auto simp: Let_def split_beta)

lemma trim_start_of_no_ws:
  "find (\<lambda>w. w \<noteq> [] \<and> prefix w (trim_start_of ws s)) ws = None"
proof (induction ws s rule: trim_start_of.induct)
  case (1 ws s)
  show ?case
  proof (cases "find (\<lambda>w. w \<noteq> [] \<and> prefix w s) ws")
    case None
    then show ?thesis by (simp add: trim_start_of.simps [of ws s])
  next
    case (Some w)
    with 1 show ?thesis by (simp add: trim_start_of.simps [of ws s])
  qed
qed

function split_whitespace :: "string \<Rightarrow> string list" where
  "split_whitespace s =
     (let s' = trim_start_of unicode_ws s
      in if s' = [] then []
         else let (t, r) = take_token s' in t # split_whitespace r)"
  by pat_completeness auto
termination
proof (relation "measure length")
  show "wf (measure length)" by simp
next
  fix s s' p t r
  assume s': "s' = trim_start_of unicode_ws s" and ne: "s' \<noteq> []"
    and p: "p = take_token s'" "(t, r) = p"
  from ne obtain c u where cu: "s' = c # u" by (cases s') auto
  with trim_start_of_no_ws [of unicode_ws s] s'
  have "find (\<lambda>w. w \<noteq> [] \<and> prefix w (c # u)) unicode_ws = None" by simp
  with p cu have "r = snd (take_token u)"
    by (auto simp: Let_def split_beta dest: sym)
  then have "length r < length s'"
    using take_token_length [of u] cu by simp
  with trim_start_of_length [of unicode_ws s] s' show "(r, s) \<in> measure length"
    by simp
qed

declare split_whitespace.simps [simp del]

fun str_join :: "string \<Rightarrow> string list \<Rightarrow> string" where
  "str_join sep [] = []"
| "str_join sep [x] = x"
| "str_join sep (x # y # xs) = x @ sep @ str_join sep (y # xs)"

definition ascii_lower :: "char \<Rightarrow> char" where
  "ascii_lower c =
     (let n = of_char c :: nat in if 65 \<le> n \<and> n \<le> 90 then char_of (n + 32) else c)"

definition to_ascii_lowercase :: "string \<Rightarrow> string" where
  "to_ascii_lowercase s = map ascii_lower s"

text \<open>\<open>str::replace\<close> with a single-character pattern.\<close>

definition str_replace_char :: "char \<Rightarrow> string \<Rightarrow> string \<Rightarrow> string" where
  "str_replace_char c r s = concat (map (\<lambda>x. if x = c then r else [x]) s)"

subsection \<open>Decimal numerals\<close>

definition digit_char :: "nat \<Rightarrow> char" where
  "digit_char d = char_of (48 + d)"

fun show_nat :: "nat \<Rightarrow> string" where
  "show_nat n = (if n < 10 then [digit_char n] else show_nat (n div 10) @ [digit_char (n mod 10)])"

declare show_nat.simps [simp del]

definition is_digit :: "char \<Rightarrow> bool" where
  "is_digit c \<longleftrightarrow> 48 \<le> (of_char c :: nat) \<and> (of_char c :: nat) \<le> 57"

definition digits_value :: "string \<Rightarrow> nat" where
  "digits_value ds = foldl (\<lambda>n c. 10 * n + (of_char c - 48)) 0 ds"

text \<open>\<open>str::parse::<u16>()\<close>: an optional plus sign, then digits of a value that fits.\<close>

definition parse_u16 :: "string \<Rightarrow> u16 option" where
  "parse_u16 s =
     (let ds = (case strip_prefix ''+'' s of None \<Rightarrow> s | Some r \<Rightarrow> r)
      in if ds \<noteq> [] \<and> list_all is_digit ds \<and> digits_value ds < 65536
         then Some (of_nat (digits_value ds)) else None)"

subsection \<open>Facts about searching and splitting\<close>

lemma str_find_Some_iff:
  "str_find p s = Some i \<longleftrightarrow>
     i \<le> length s \<and> prefix p (drop i s) \<and> (\<forall>j<i. \<not> prefix p (drop j s))"
proof (induction s arbitrary: i)
  case Nil
  then show ?case by auto
next
  case (Cons c s)
  show ?case
  proof (cases i)
    case 0
    then show ?thesis by auto
  next
    case (Suc k)
    then show ?thesis
      using Cons.IH [of k] by (auto simp: All_less_Suc2)
  qed
qed

lemma str_find_None_iff: "str_find p s = None \<longleftrightarrow> \<not> sublist p s"
  by (induction s) (auto simp: sublist_Cons_right)

lemma str_contains_sublist [str_simps]: "str_contains p s \<longleftrightarrow> sublist p s"
  by (simp add: str_contains_def str_find_None_iff)

lemma split_once_None: "split_once p s = None \<longleftrightarrow> \<not> sublist p s"
  by (auto simp: split_once_def str_find_None_iff [symmetric] split: option.split)

lemma split_once_Some:
  assumes "split_once p s = Some (a, b)"
  shows "s = a @ p @ b"
proof -
  from assms obtain i where i: "str_find p s = Some i" "a = take i s" "b = drop (i + length p) s"
    by (auto simp: split_once_def split: option.splits)
  then have "prefix p (drop i s)" by (simp add: str_find_Some_iff)
  then have "drop i s = p @ drop (length p) (drop i s)"
    by (metis append_eq_conv_conj prefix_def)
  then show ?thesis using i by (metis add.commute append_take_drop_id drop_drop)
qed

text \<open>
  The first occurrence of a non-empty separator after \<open>a\<close> is the one written there exactly when
  \<open>a\<close> followed by all but the last byte of the separator holds no earlier occurrence.
\<close>

lemma split_once_append_iff:
  assumes "p \<noteq> []"
  shows "split_once p (a @ p @ b) = Some (a, b) \<longleftrightarrow> \<not> sublist p (a @ butlast p)"
proof
  assume "\<not> sublist p (a @ butlast p)"
  have "str_find p (a @ p @ b) = Some (length a)"
    unfolding str_find_Some_iff
  proof (intro conjI allI impI)
    fix j assume j: "j < length a"
    show "\<not> prefix p (drop j (a @ p @ b))"
    proof
      assume "prefix p (drop j (a @ p @ b))"
      then have "p = take (length p) (drop j (a @ p @ b))"
        by (metis append_eq_conv_conj prefix_def)
      also have "\<dots> = take (length p) (drop j (a @ butlast p @ [last p] @ b))"
        using assms by (metis append.assoc append_butlast_last_id)
      also have "\<dots> = take (length p) (drop j (a @ butlast p))"
        using j assms by simp
      finally have "sublist p (a @ butlast p)"
        by (metis append_take_drop_id sublist_appendI)
      with \<open>\<not> sublist p (a @ butlast p)\<close> show False by simp
    qed
  qed (auto)
  then show "split_once p (a @ p @ b) = Some (a, b)" by (simp add: split_once_def)
next
  assume eq: "split_once p (a @ p @ b) = Some (a, b)"
  show "\<not> sublist p (a @ butlast p)"
  proof
    assume "sublist p (a @ butlast p)"
    then obtain u v where uv: "a @ butlast p = u @ p @ v" by (auto simp: sublist_def)
    have "0 < length p" using assms by simp
    with arg_cong [OF uv, of length] have lt: "length u < length a"
      unfolding length_append length_butlast by linarith
    have dec: "a @ p @ b = u @ p @ v @ [last p] @ b"
      using uv assms by (metis append.assoc append_butlast_last_id)
    have pre: "prefix p (drop (length u) (a @ p @ b))"
      unfolding dec by simp
    from eq obtain i where i: "str_find p (a @ p @ b) = Some i" "take i (a @ p @ b) = a"
      by (auto simp: split_once_def split: option.splits)
    from i(1) have "i \<le> length u" using pre by (meson linorder_not_less str_find_Some_iff)
    moreover have "length a \<le> i" using arg_cong [OF i(2), of length] by simp
    ultimately show False using lt by simp
  qed
qed

lemma strip_prefix_Some [str_simps]: "strip_prefix p s = Some r \<longleftrightarrow> s = p @ r"
  by (auto simp: strip_prefix_def prefix_def)

lemma strip_prefix_append [simp]: "strip_prefix p (p @ r) = Some r"
  by (simp add: strip_prefix_def)

lemma strip_suffix_Some [str_simps]: "strip_suffix p s = Some r \<longleftrightarrow> s = r @ p"
  by (auto simp: strip_suffix_def str_simps rev_swap)

lemma digit_char_value [simp]: "d < 10 \<Longrightarrow> of_char (digit_char d) = 48 + d"
  by (simp add: digit_char_def)

section \<open>The hash-map interface\<close>

text \<open>
  \<open>std::collections::HashMap\<close>, used by the registry, the session manager, the rate limiter and
  the notification broker, as an interface: lookups after an insertion, a removal and a
  \<open>retain\<close>, and that the key list is a duplicate-free listing of the domain.  The iteration
  order is not specified, and no law mentions it.
\<close>

locale hash_map =
  fixes empty :: 'm
    and get :: "'m \<Rightarrow> 'k \<Rightarrow> 'v option"
    and insert :: "'k \<Rightarrow> 'v \<Rightarrow> 'm \<Rightarrow> 'm"
    and remove :: "'k \<Rightarrow> 'm \<Rightarrow> 'm"
    and retain :: "('k \<Rightarrow> 'v \<Rightarrow> bool) \<Rightarrow> 'm \<Rightarrow> 'm"
    and keys :: "'m \<Rightarrow> 'k list"
    and wf :: "'m \<Rightarrow> bool"
  assumes get_empty: "get empty k = None"
    and get_insert: "get (insert k v m) k' = (if k' = k then Some v else get m k')"
    and get_remove: "get (remove k m) k' = (if k' = k then None else get m k')"
    and get_retain: "wf m \<Longrightarrow> get (retain P m) k =
      (case get m k of None \<Rightarrow> None | Some v \<Rightarrow> if P k v then Some v else None)"
    and set_keys: "set (keys m) = {k. get m k \<noteq> None}"
    and distinct_keys: "wf m \<Longrightarrow> distinct (keys m)"
    and wf_empty: "wf empty"
    and wf_insert: "wf m \<Longrightarrow> wf (insert k v m)"
    and wf_remove: "wf m \<Longrightarrow> wf (remove k m)"
    and wf_retain: "wf m \<Longrightarrow> wf (retain P m)"
begin

lemma length_keys: "wf m \<Longrightarrow> length (keys m) = card {k. get m k \<noteq> None}"
  using distinct_card [OF distinct_keys] by (simp add: set_keys)

lemma finite_dom: "finite {k. get m k \<noteq> None}"
  using finite_set [of "keys m"] by (simp add: set_keys)

lemma retain_count:
  assumes "wf m"
  shows "length (keys (retain P m)) + card {k. \<exists>v. get m k = Some v \<and> \<not> P k v} = length (keys m)"
proof -
  let ?all = "{k. get m k \<noteq> None}" and ?kept = "{k. get (retain P m) k \<noteq> None}"
    and ?gone = "{k. \<exists>v. get m k = Some v \<and> \<not> P k v}"
  have "?all = ?kept \<union> ?gone" "?kept \<inter> ?gone = {}"
    using assms by (auto simp: get_retain split: option.splits if_splits)
  moreover have "finite ?kept" "finite ?gone"
    using \<open>?all = ?kept \<union> ?gone\<close> finite_dom [of m] by simp_all
  ultimately have "card ?all = card ?kept + card ?gone"
    by (simp add: card_Un_disjoint)
  with assms show ?thesis by (simp add: length_keys wf_retain)
qed

lemma retain_length_le: "wf m \<Longrightarrow> length (keys (retain P m)) \<le> length (keys m)"
  using retain_count [of m P] by linarith

lemma get_fold_remove:
  "get (fold remove ks m) k = (if k \<in> set ks then None else get m k)"
  by (induction ks arbitrary: m) (auto simp: get_remove)

end

text \<open>
  The model of a hash map: an association list without duplicate keys, standing for one of the
  iteration orders.
\<close>

type_synonym ('k, 'v) hmap = "('k \<times> 'v) list"

definition hm_empty :: "('k, 'v) hmap" where
  "hm_empty = []"

definition hm_get :: "('k, 'v) hmap \<Rightarrow> 'k \<Rightarrow> 'v option" where
  "hm_get m k = map_of m k"

definition hm_insert :: "'k \<Rightarrow> 'v \<Rightarrow> ('k, 'v) hmap \<Rightarrow> ('k, 'v) hmap" where
  "hm_insert k v m = AList.update k v m"

definition hm_remove :: "'k \<Rightarrow> ('k, 'v) hmap \<Rightarrow> ('k, 'v) hmap" where
  "hm_remove k m = AList.delete k m"

definition hm_retain :: "('k \<Rightarrow> 'v \<Rightarrow> bool) \<Rightarrow> ('k, 'v) hmap \<Rightarrow> ('k, 'v) hmap" where
  "hm_retain P m = filter (\<lambda>(k, v). P k v) m"

definition hm_keys :: "('k, 'v) hmap \<Rightarrow> 'k list" where
  "hm_keys m = map fst m"

definition hm_wf :: "('k, 'v) hmap \<Rightarrow> bool" where
  "hm_wf m \<longleftrightarrow> distinct (map fst m)"

lemmas hm_defs = hm_empty_def hm_get_def hm_insert_def hm_remove_def hm_retain_def hm_keys_def
  hm_wf_def

lemma map_of_filter_pred:
  "distinct (map fst m) \<Longrightarrow> map_of (filter (\<lambda>(k, v). P k v) m) k =
     (case map_of m k of None \<Rightarrow> None | Some v \<Rightarrow> if P k v then Some v else None)"
  by (induction m) (auto simp: map_of_eq_None_iff split: option.splits)

interpretation hm: hash_map hm_empty hm_get hm_insert hm_remove hm_retain hm_keys hm_wf
proof unfold_locales
  fix m :: "('a, 'b) hmap" and P k
  assume "hm_wf m"
  then show "hm_get (hm_retain P m) k =
    (case hm_get m k of None \<Rightarrow> None | Some v \<Rightarrow> if P k v then Some v else None)"
    by (simp add: hm_defs map_of_filter_pred)
  from \<open>hm_wf m\<close> show "hm_wf (hm_retain P m)"
    by (auto simp: hm_defs distinct_map_filter)
next
  fix m :: "('a, 'b) hmap"
  show "set (hm_keys m) = {k. hm_get m k \<noteq> None}"
    by (auto simp: hm_defs map_of_eq_None_iff)
qed (auto simp: hm_defs update_conv' delete_conv' distinct_update distinct_delete)

lemmas hm_laws [hm_simps] = hm.get_empty hm.get_insert hm.get_remove hm.get_retain hm.wf_empty
  hm.wf_insert hm.wf_remove hm.wf_retain

text \<open>The entries of a well-formed map are exactly what lookups return.\<close>

lemma hm_entry_iff: "hm_wf m \<Longrightarrow> (k, v) \<in> set m \<longleftrightarrow> hm_get m k = Some v"
  by (simp add: hm_wf_def hm_get_def)

lemma hm_get_in_set: "hm_get m k = Some v \<Longrightarrow> (k, v) \<in> set m"
  by (simp add: hm_get_def map_of_SomeD)

end
