(* ===== verification/Fed_Json.thy ===== *)
theory Fed_Json
  imports Fed_Prelude
begin

text \<open>
  The part of \<open>serde_json::Value\<close> the program uses.  Objects are ordered maps (the crate is built
  without its \<open>preserve_order\<close> feature, so a \<open>Map\<close> is a \<open>BTreeMap\<close>): an association list kept in
  increasing key order by the insertion.
\<close>

named_theorems json_simps \<open>lookups in JSON values\<close>

text \<open>A JSON number: an integer (\<open>u64\<close> or \<open>i64\<close> in the crate) or the bits of an \<open>f64\<close>.\<close>

datatype jnum = JInt int | JFloat u64

datatype json =
    JNull
  | JBool bool
  | JNum jnum
  | JString string
  | JArray "json list"
  | JObject "(string \<times> json) list"

fun jmap_insert :: "string \<Rightarrow> 'v \<Rightarrow> (string \<times> 'v) list \<Rightarrow> (string \<times> 'v) list" where
  "jmap_insert k v [] = [(k, v)]"
| "jmap_insert k v ((k', v') # m) =
     (if k < k' then (k, v) # (k', v') # m
      else if k = k' then (k, v) # m
      else (k', v') # jmap_insert k v m)"

text \<open>The \<open>json!\<close> macro on an object literal: the fields are inserted in the order they are written.\<close>

definition json_obj :: "(string \<times> json) list \<Rightarrow> json" where
  "json_obj kvs = JObject (fold (\<lambda>(k, v). jmap_insert k v) kvs [])"

text \<open>\<open>Value::get\<close> with a string key.\<close>

fun json_get :: "json \<Rightarrow> string \<Rightarrow> json option" where
  "json_get (JObject m) k = map_of m k"
| "json_get _ k = None"

text \<open>\<open>Value\<close> indexed by a string: absent fields and non-objects read as null.\<close>

definition json_index :: "json \<Rightarrow> string \<Rightarrow> json" where
  "json_index v k = (case json_get v k of None \<Rightarrow> JNull | Some x \<Rightarrow> x)"

text \<open>
  Assignment through a string index.  On null it makes an object.  On the other variants the
  source panics; every use in the program is on an object (\<open>json_get\<close> succeeded before it).
\<close>

fun json_set :: "string \<Rightarrow> json \<Rightarrow> json \<Rightarrow> json" where
  "json_set k x (JObject m) = JObject (jmap_insert k x m)"
| "json_set k x JNull = JObject [(k, x)]"
| "json_set k x v = v"

fun json_as_str :: "json \<Rightarrow> string option" where
  "json_as_str (JString s) = Some s"
| "json_as_str _ = None"

fun json_as_array :: "json \<Rightarrow> json list option" where
  "json_as_array (JArray xs) = Some xs"
| "json_as_array _ = None"

fun json_is_object :: "json \<Rightarrow> bool" where
  "json_is_object (JObject _) = True"
| "json_is_object _ = False"

definition json_nat :: "nat \<Rightarrow> json" where
  "json_nat n = JNum (JInt (int n))"

text \<open>\<open>v.get(k).and_then(|x| x.as_str())\<close>, and the same with a default of the empty string.\<close>

definition json_get_str :: "json \<Rightarrow> string \<Rightarrow> string option" where
  "json_get_str v k = Option.bind (json_get v k) json_as_str"

definition json_str_or_empty :: "json \<Rightarrow> string \<Rightarrow> string" where
  "json_str_or_empty v k = (case json_get_str v k of None \<Rightarrow> [] | Some s \<Rightarrow> s)"

lemma map_of_jmap_insert [json_simps, simp]:
  "map_of (jmap_insert k v m) = (map_of m)(k \<mapsto> v)"
  by (induction k v m rule: jmap_insert.induct) (auto simp: fun_eq_iff)

lemma map_of_fold_jmap_insert:
  "map_of (fold (\<lambda>(k, v). jmap_insert k v) kvs m) = map_of m ++ map_of (rev kvs)"
  by (induction kvs arbitrary: m) (auto simp: map_add_def fun_eq_iff split: option.splits)

lemma json_get_obj [json_simps]: "json_get (json_obj kvs) k = map_of (rev kvs) k"
  by (simp add: json_obj_def map_of_fold_jmap_insert)

lemma json_get_set [json_simps]:
  "json_is_object v \<or> v = JNull \<Longrightarrow>
     json_get (json_set k x v) k' = (if k' = k then Some x else json_get v k')"
  by (cases v) auto

lemma json_is_object_set [json_simps]: "json_is_object v \<Longrightarrow> json_is_object (json_set k x v)"
  by (cases v) auto

lemma json_get_object: "json_get v k = Some x \<Longrightarrow> json_is_object v"
  by (cases v) auto

lemma json_as_str_Some [simp]: "json_as_str v = Some s \<longleftrightarrow> v = JString s"
  by (cases v) auto

lemma json_get_str_Some: "json_get_str v k = Some s \<longleftrightarrow> json_get v k = Some (JString s)"
  by (auto simp: json_get_str_def bind_eq_Some_conv)

lemma json_get_str_object: "json_get_str v k = Some s \<Longrightarrow> json_is_object v"
  by (auto simp: json_get_str_Some intro: json_get_object)

lemma json_index_obj [json_simps]:
  "json_index (json_obj kvs) k = (case map_of (rev kvs) k of None \<Rightarrow> JNull | Some x \<Rightarrow> x)"
  by (simp add: json_index_def json_get_obj)

end
