(* ===== verification/Fed_Protocol.thy ===== *)
theory Fed_Protocol
  imports Fed_Json
begin

text \<open>
  The error type of the program (\<open>src/src/error.rs\<close>) with its messages, and the JSON-RPC
  envelope (\<open>src/src/mcp/protocol.rs\<close>): requests, responses, their constructors and the
  serialisation that leaves absent fields out.
\<close>

section \<open>Errors\<close>

text \<open>The source of \<open>LeafUnreachable\<close> is a \<open>reqwest::Error\<close>, kept as the text it displays.\<close>

datatype federation_error =
    ConfigError string
  | LeafUnreachable string string
  | LeafError string string
  | UnknownLeaf string
  | ToolNotFound string
  | InvalidToolName string
  | LeafUnhealthy string

fun error_to_string :: "federation_error \<Rightarrow> string" where
  "error_to_string (ConfigError m) = ''config error: '' @ m"
| "error_to_string (LeafUnreachable a src) =
     ''leaf server '' @ [CHR 0x27] @ a @ [CHR 0x27] @ '' is unreachable: '' @ src"
| "error_to_string (LeafError a m) =
     ''leaf server '' @ [CHR 0x27] @ a @ [CHR 0x27] @ '' returned error: '' @ m"
| "error_to_string (UnknownLeaf a) = ''unknown leaf server: '' @ a"
| "error_to_string (ToolNotFound t) = ''tool not found: '' @ t"
| "error_to_string (InvalidToolName m) = ''invalid tool name format: '' @ m"
| "error_to_string (LeafUnhealthy a) =
     ''leaf server '' @ [CHR 0x27] @ a @ [CHR 0x27] @ '' is unhealthy''"

section \<open>JSON-RPC\<close>

record json_rpc_request =
  rq_jsonrpc :: string
  rq_id :: "json option"
  rq_method :: string
  rq_params :: json

record json_rpc_error =
  err_code :: int
  err_message :: string

record json_rpc_response =
  rs_jsonrpc :: string
  rs_id :: "json option"
  rs_result :: "json option"
  rs_error :: "json_rpc_error option"

definition success_response :: "json_rpc_request \<Rightarrow> json \<Rightarrow> json_rpc_response" where
  "success_response request result =
     \<lparr>rs_jsonrpc = ''2.0'', rs_id = rq_id request, rs_result = Some result, rs_error = None\<rparr>"

definition error_response :: "json_rpc_request \<Rightarrow> int \<Rightarrow> string \<Rightarrow> json_rpc_response" where
  "error_response request code message =
     \<lparr>rs_jsonrpc = ''2.0'', rs_id = rq_id request, rs_result = None,
      rs_error = Some \<lparr>err_code = code, err_message = message\<rparr>\<rparr>"

definition method_not_found :: "json_rpc_request \<Rightarrow> json_rpc_response" where
  "method_not_found request =
     error_response request (-32601) (''Method not found: '' @ rq_method request)"

definition notification_response :: json_rpc_response where
  "notification_response =
     \<lparr>rs_jsonrpc = ''2.0'', rs_id = None, rs_result = None, rs_error = None\<rparr>"

text \<open>The derived \<open>Serialize\<close>: \<open>skip_serializing_if = "Option::is_none"\<close> drops absent fields.\<close>

definition json_rpc_error_to_json :: "json_rpc_error \<Rightarrow> json" where
  "json_rpc_error_to_json e =
     json_obj [(''code'', JNum (JInt (err_code e))), (''message'', JString (err_message e))]"

definition opt_field :: "string \<Rightarrow> json option \<Rightarrow> (string \<times> json) list" where
  "opt_field k v = (case v of None \<Rightarrow> [] | Some x \<Rightarrow> [(k, x)])"

definition json_rpc_response_to_json :: "json_rpc_response \<Rightarrow> json" where
  "json_rpc_response_to_json r =
     json_obj
       ([(''jsonrpc'', JString (rs_jsonrpc r))]
        @ opt_field ''id'' (rs_id r)
        @ opt_field ''result'' (rs_result r)
        @ opt_field ''error'' (map_option json_rpc_error_to_json (rs_error r)))"

text \<open>
  A reply to a request: it carries the request's id, and exactly one of a result and an error.
\<close>

definition reply_to :: "json_rpc_request \<Rightarrow> json_rpc_response \<Rightarrow> bool" where
  "reply_to request r \<longleftrightarrow>
     rs_jsonrpc r = ''2.0'' \<and> rs_id r = rq_id request
     \<and> (rs_result r = None \<longleftrightarrow> rs_error r \<noteq> None)"

lemma reply_to_success [simp]: "reply_to request (success_response request v)"
  by (simp add: reply_to_def success_response_def)

lemma reply_to_error [simp]: "reply_to request (error_response request c m)"
  by (simp add: reply_to_def error_response_def)

lemma reply_to_method_not_found [simp]: "reply_to request (method_not_found request)"
  by (simp add: method_not_found_def)

lemma success_response_sel [simp]:
  "rs_result (success_response rq v) = Some v" "rs_error (success_response rq v) = None"
  "rs_id (success_response rq v) = rq_id rq"
  by (simp_all add: success_response_def)

lemma error_response_sel [simp]:
  "rs_result (error_response rq c m) = None"
  "rs_error (error_response rq c m) = Some \<lparr>err_code = c, err_message = m\<rparr>"
  "rs_id (error_response rq c m) = rq_id rq"
  by (simp_all add: error_response_def)

lemma success_not_error [simp]: "success_response rq v \<noteq> error_response rq' c m"
  by (simp add: success_response_def error_response_def)

text \<open>The fields of a serialised response are the present fields of the response.\<close>

lemma response_to_json_get:
  "json_get (json_rpc_response_to_json r) k =
     (if k = ''jsonrpc'' then Some (JString (rs_jsonrpc r))
      else if k = ''id'' then rs_id r
      else if k = ''result'' then rs_result r
      else if k = ''error'' then map_option json_rpc_error_to_json (rs_error r)
      else None)"
  by (auto simp: json_rpc_response_to_json_def json_get_obj opt_field_def map_add_def
      split: option.splits)

end
