(* ===== verification/Fed_F64.thy ===== *)
theory Fed_F64
  imports Fed_Prelude "HOL-Library.Log_Nat"
begin

text \<open>
  IEEE-754 binary64 arithmetic as far as the program uses \<open>f64\<close> (the token buckets of the rate
  limiter, the back-off delay of the health monitor).  A finite value is the rational number it
  denotes; signed zeros are not distinguished, since no operation of the program tells them
  apart.  Every operation is the exact one followed by rounding to nearest, ties to even, with
  gradual underflow and overflow to infinity.
\<close>

section \<open>Rounding\<close>

text \<open>Rounding a rational to the nearest integer, ties to even.\<close>

definition round_even :: "rat \<Rightarrow> int" where
  "round_even y =
     (let f = \<lfloor>y\<rfloor>; d = y - of_int f
      in if d < 1/2 then f else if 1/2 < d then f + 1 else if even f then f else f + 1)"

lemma round_even_int [simp]: "round_even (of_int n) = n"
  by (simp add: round_even_def)

lemma round_even_bounds: "\<lfloor>y\<rfloor> \<le> round_even y" "round_even y \<le> \<lfloor>y\<rfloor> + 1"
  by (simp_all add: round_even_def Let_def)

lemma round_even_mono:
  assumes "y \<le> z"
  shows "round_even y \<le> round_even z"
proof (cases "\<lfloor>y\<rfloor> = \<lfloor>z\<rfloor>")
  case True
  with assms show ?thesis by (auto simp: round_even_def Let_def)
next
  case False
  with floor_mono [OF assms] have "\<lfloor>y\<rfloor> + 1 \<le> \<lfloor>z\<rfloor>" by simp
  then show ?thesis using round_even_bounds [of y] round_even_bounds [of z] by linarith
qed

lemma round_even_le: "y \<le> of_int n \<Longrightarrow> round_even y \<le> n"
  using round_even_mono [of y "of_int n"] by simp

lemma round_even_ge: "of_int n \<le> y \<Longrightarrow> n \<le> round_even y"
  using round_even_mono [of "of_int n" y] by simp

text \<open>The binary exponent of a positive rational: \<open>2 powi e \<le> x < 2 powi (e + 1)\<close>.\<close>

definition rat_exp :: "rat \<Rightarrow> int" where
  "rat_exp x =
     (let (p, q) = quotient_of x; e = bitlen p - bitlen q
      in if 2 powi e \<le> x then e else e - 1)"

lemma pow2_add: "(2::rat) powi (a + b) = 2 powi a * 2 powi b"
  by (simp add: power_int_add)

lemma pow2_mono: "(a::int) \<le> b \<Longrightarrow> (2::rat) powi a \<le> 2 powi b"
  by (simp add: power_int_increasing)

lemma pow2_less: "(2::rat) powi a < 2 powi b \<Longrightarrow> a < b"
  using pow2_mono [of b a] by (meson not_le)

lemma pow2_pos [simp]: "0 < (2::rat) powi a"
  by (simp add: zero_less_power_int)

lemma bitlen_pow2_bounds:
  assumes "0 < (p::int)"
  shows "(2::rat) powi (bitlen p - 1) \<le> of_int p" "of_int p < (2::rat) powi bitlen p"
proof -
  have len: "1 \<le> bitlen p"
    using assms bitlen_eq_zero_iff [of p] bitlen_nonneg [of p] by linarith
  from bitlen_bounds [OF assms]
  have "(of_int (2 ^ nat (bitlen p - 1)) :: rat) \<le> of_int p" "of_int p < (of_int (2 ^ nat (bitlen p)) :: rat)"
    by (simp_all only: of_int_le_iff of_int_less_iff)
  then show "(2::rat) powi (bitlen p - 1) \<le> of_int p" "of_int p < (2::rat) powi bitlen p"
    using len by (simp_all add: power_int_nonneg_exp)
qed

lemma rat_exp_bounds:
  assumes "0 < x"
  shows "2 powi rat_exp x \<le> x" "x < 2 powi (rat_exp x + 1)"
proof -
  obtain p q where pq: "quotient_of x = (p, q)" by (cases "quotient_of x")
  have q: "0 < q" using pq by (rule quotient_of_denom_pos)
  have x: "x = of_int p / of_int q" using pq by (rule quotient_of_div)
  with assms q have p: "0 < p" by (simp add: zero_less_divide_iff)
  let ?e = "bitlen p - bitlen q"
  note bp = bitlen_pow2_bounds [OF p] and bq = bitlen_pow2_bounds [OF q]
  have "2 powi (?e - 1) = 2 powi (bitlen p - 1) / (2::rat) powi bitlen q"
    by (simp flip: power_int_diff add: algebra_simps)
  also have "\<dots> \<le> x"
    unfolding x using bp(1) bq(2) q p by (intro frac_le) auto
  finally have lo: "2 powi (?e - 1) \<le> x" .
  have "x < 2 powi bitlen p / (2::rat) powi (bitlen q - 1)"
    unfolding x using bp(2) bq(1) q p by (intro frac_less) auto
  also have "\<dots> = 2 powi (?e + 1)"
    by (simp flip: power_int_diff add: algebra_simps)
  finally have hi: "x < 2 powi (?e + 1)" .
  show "2 powi rat_exp x \<le> x" "x < 2 powi (rat_exp x + 1)"
    using lo hi by (auto simp: rat_exp_def pq Let_def)
qed

lemma rat_exp_mono:
  assumes "0 < x" "x \<le> y"
  shows "rat_exp x \<le> rat_exp y"
proof -
  have "(2::rat) powi rat_exp x < 2 powi (rat_exp y + 1)"
    using rat_exp_bounds(1) [OF assms(1)] rat_exp_bounds(2) [of y] assms by linarith
  then show ?thesis using pow2_less by fastforce
qed

lemma rat_exp_less:
  assumes "0 < x" "x < 2 powi k"
  shows "rat_exp x < k"
  using rat_exp_bounds(1) [OF assms(1)] assms(2) by (intro pow2_less) linarith

lemma rat_exp_ge:
  assumes "0 < x" "2 powi k \<le> x"
  shows "k \<le> rat_exp x"
proof -
  have "(2::rat) powi k < 2 powi (rat_exp x + 1)"
    using rat_exp_bounds(2) [OF assms(1)] assms(2) by linarith
  then show ?thesis using pow2_less by fastforce
qed

text \<open>The spacing of the binary64 values at \<open>x\<close>, and the rounding of a non-negative rational.\<close>

definition f64_exp :: "rat \<Rightarrow> int" where
  "f64_exp x = max (rat_exp x) (-1022)"

definition f64_ulp :: "rat \<Rightarrow> rat" where
  "f64_ulp x = 2 powi (f64_exp x - 52)"

definition f64_mag :: "rat \<Rightarrow> rat" where
  "f64_mag x = (if x \<le> 0 then 0 else of_int (round_even (x / f64_ulp x)) * f64_ulp x)"

definition f64_rep :: "rat \<Rightarrow> bool" where
  "f64_rep x \<longleftrightarrow> 0 \<le> x \<and> f64_mag x = x"

lemma f64_ulp_pos [simp]: "0 < f64_ulp x"
  by (simp add: f64_ulp_def)

lemma f64_ulp_nz [simp]: "f64_ulp x \<noteq> 0"
  by (simp add: f64_ulp_def)

lemma f64_mag_nonneg [simp]: "0 \<le> f64_mag x"
proof (cases "0 < x")
  case True
  then have "0 \<le> round_even (x / f64_ulp x)"
    by (intro round_even_ge) (simp add: less_imp_le)
  then show ?thesis by (simp add: f64_mag_def less_imp_le)
qed (simp add: f64_mag_def)

lemma f64_mag_upper:
  assumes "0 < x"
  shows "f64_mag x \<le> 2 powi (f64_exp x + 1)"
proof -
  have "x < 2 powi (f64_exp x + 1)"
    using rat_exp_bounds(2) [OF assms] pow2_mono [of "rat_exp x + 1" "f64_exp x + 1"]
    by (simp add: f64_exp_def)
  also have "\<dots> = of_int (2 ^ 53) * f64_ulp x"
    using pow2_add [of 53 "f64_exp x - 52"] by (simp add: f64_ulp_def algebra_simps)
  finally have le: "x / f64_ulp x \<le> of_int (2 ^ 53)"
    by (simp add: divide_le_eq less_imp_le)
  then have "round_even (x / f64_ulp x) \<le> 2 ^ 53" by (rule round_even_le)
  then have "(of_int (round_even (x / f64_ulp x)) :: rat) \<le> of_int (2 ^ 53)"
    by (simp only: of_int_le_iff)
  then have "f64_mag x \<le> of_int (2 ^ 53) * f64_ulp x"
    using assms by (simp add: f64_mag_def mult_right_mono less_imp_le)
  then show ?thesis
    using pow2_add [of 53 "f64_exp x - 52"] by (simp add: f64_ulp_def algebra_simps)
qed

lemma f64_mag_lower:
  assumes "0 < x" "f64_exp x = rat_exp x"
  shows "2 powi f64_exp x \<le> f64_mag x"
proof -
  have split: "2 powi f64_exp x = of_int (2 ^ 52) * f64_ulp x"
    using pow2_add [of 52 "f64_exp x - 52"] by (simp add: f64_ulp_def)
  have "of_int (2 ^ 52) * f64_ulp x \<le> x"
    using rat_exp_bounds(1) [OF assms(1)] assms(2) split by simp
  then have "of_int (2 ^ 52) \<le> x / f64_ulp x"
    by (simp add: le_divide_eq)
  then have "2 ^ 52 \<le> round_even (x / f64_ulp x)" by (rule round_even_ge)
  then have "(of_int (2 ^ 52) :: rat) \<le> of_int (round_even (x / f64_ulp x))"
    by (simp only: of_int_le_iff)
  with assms(1) show ?thesis
    unfolding split by (simp add: f64_mag_def mult_right_mono less_imp_le)
qed

lemma f64_mag_mono:
  assumes "x \<le> y"
  shows "f64_mag x \<le> f64_mag y"
proof (cases "0 < x")
  case x: True
  with assms have y: "0 < y" by simp
  have le: "f64_exp x \<le> f64_exp y"
    using rat_exp_mono [OF x assms] by (auto simp: f64_exp_def)
  show ?thesis
  proof (cases "f64_exp x = f64_exp y")
    case True
    then have u: "f64_ulp x = f64_ulp y" by (simp add: f64_ulp_def)
    have "round_even (x / f64_ulp y) \<le> round_even (y / f64_ulp y)"
      using assms by (intro round_even_mono divide_right_mono) (auto simp: less_imp_le)
    then show ?thesis using x y u by (simp add: f64_mag_def mult_right_mono less_imp_le)
  next
    case False
    with le have lt: "f64_exp x + 1 \<le> f64_exp y" and "f64_exp y = rat_exp y"
      by (auto simp: f64_exp_def)
    with f64_mag_upper [OF x] f64_mag_lower [OF y] pow2_mono [OF lt] show ?thesis
      by simp
  qed
next
  case False
  then have "f64_mag x = 0" by (simp add: f64_mag_def)
  then show ?thesis by simp
qed

text \<open>A value that is a whole number of its units of last place is representable.\<close>

lemma f64_repI:
  assumes "0 < x" "x / f64_ulp x = of_int n"
  shows "f64_rep x"
proof -
  have "x = of_int n * f64_ulp x" using assms(2) by (simp add: divide_eq_eq)
  then show ?thesis using assms by (simp add: f64_rep_def f64_mag_def)
qed

lemma f64_rep_int:
  assumes "f64_rep x" "0 < x"
  obtains n where "x / f64_ulp x = of_int n"
proof -
  have "f64_mag x = x" using assms by (simp add: f64_rep_def)
  with assms(2) have "of_int (round_even (x / f64_ulp x)) * f64_ulp x = x"
    by (simp add: f64_mag_def)
  then have "x / f64_ulp x = of_int (round_even (x / f64_ulp x))"
    by (simp add: divide_eq_eq)
  then show thesis by (rule that)
qed

text \<open>A multiple of a coarser unit is a multiple of a finer one.\<close>

lemma pow2_multiple:
  fixes x :: rat
  assumes "x = of_int n * 2 powi a" "b \<le> a"
  shows "x / 2 powi b = of_int (n * 2 ^ nat (a - b))"
proof -
  have "(2::rat) powi a = 2 powi (a - b) * 2 powi b"
    by (simp flip: pow2_add)
  moreover have "(2::rat) powi (a - b) = 2 ^ nat (a - b)"
    using assms(2) by (simp add: power_int_nonneg_exp)
  ultimately show ?thesis using assms(1) by simp
qed

lemma f64_rep_multiple:
  assumes "0 < x" "x = of_int n * 2 powi a" "f64_exp x - 52 \<le> a"
  shows "f64_rep x"
  by (rule f64_repI [OF assms(1)]) (unfold f64_ulp_def, rule pow2_multiple [OF assms(2,3)])

lemma f64_rep_mag: "f64_rep (f64_mag x)"
proof (cases "0 < f64_mag x")
  case pos: True
  then have x: "0 < x" by (auto simp: f64_mag_def split: if_splits)
  let ?c = "f64_exp x" and ?y = "f64_mag x"
  have mult: "?y = of_int (round_even (x / f64_ulp x)) * 2 powi (?c - 52)"
    using x by (simp add: f64_mag_def f64_ulp_def)
  show ?thesis
  proof (cases "?y = 2 powi (?c + 1)")
    case True
    have "rat_exp ?y < ?c + 2"
      using pos True pow2_add [of "?c + 1" 1] by (intro rat_exp_less) (simp_all add: algebra_simps)
    then have "f64_exp ?y - 52 \<le> ?c + 1" by (auto simp: f64_exp_def)
    then show ?thesis using True pos by (intro f64_rep_multiple [of _ 1 "?c + 1"]) simp_all
  next
    case False
    with f64_mag_upper [OF x] have "?y < 2 powi (?c + 1)" by simp
    then have "rat_exp ?y < ?c + 1" using pos by (intro rat_exp_less)
    then have "f64_exp ?y - 52 \<le> ?c - 52" by (auto simp: f64_exp_def)
    then show ?thesis using mult pos by (intro f64_rep_multiple)
  qed
next
  case False
  then have "f64_mag x = 0" using f64_mag_nonneg [of x] by simp
  then show ?thesis by (simp add: f64_rep_def f64_mag_def)
qed

lemma f64_rep_0 [simp]: "f64_rep 0"
  by (simp add: f64_rep_def f64_mag_def)

lemma f64_rep_nat:
  assumes "n \<le> 2 ^ 53"
  shows "f64_rep (of_nat n)"
proof (cases "n = 0 \<or> n = 2 ^ 53")
  case True
  have "f64_exp (2 ^ 53) - 52 \<le> 53"
    using rat_exp_less [of "2 ^ 53" 54] by (simp add: f64_exp_def)
  then have "f64_rep (2 ^ 53)"
    by (intro f64_rep_multiple [of _ 1 53]) simp_all
  with True show ?thesis by auto
next
  case False
  with assms have n: "0 < n" "n < 2 ^ 53" by auto
  then have "(of_nat n :: rat) < of_nat (2 ^ 53)" by (simp only: of_nat_less_iff)
  then have "rat_exp (of_nat n) < 53" using n by (intro rat_exp_less) simp_all
  then have "f64_exp (of_nat n) - 52 \<le> 0" by (auto simp: f64_exp_def)
  then show ?thesis using n by (intro f64_rep_multiple [of _ "int n" 0]) simp_all
qed

text \<open>Subtracting one from a representable value between one and \<open>2 ^ 53\<close> is exact.\<close>

lemma f64_rep_minus_1:
  assumes "f64_rep t" "1 \<le> t" "t < 2 ^ 53"
  shows "f64_rep (t - 1)"
proof (cases "t = 1")
  case False
  with assms have pos: "0 < t - 1" "0 < t" by auto
  from f64_rep_int [OF assms(1) pos(2)] obtain n where n: "t / f64_ulp t = of_int n" .
  have "rat_exp t < 53" using assms pos by (intro rat_exp_less) simp_all
  moreover have "0 \<le> rat_exp t" using assms pos by (intro rat_exp_ge) simp_all
  ultimately have e: "f64_exp t = rat_exp t" "f64_exp t - 52 \<le> 0"
    by (auto simp: f64_exp_def)
  have one: "(1::rat) / f64_ulp t = of_int (1 * 2 ^ nat (0 - (f64_exp t - 52)))"
    unfolding f64_ulp_def using e by (intro pow2_multiple) simp_all
  define m :: int where "m = 2 ^ nat (0 - (f64_exp t - 52))"
  have "(t - 1) / f64_ulp t = of_int (n - m)"
    using n one by (simp add: diff_divide_distrib m_def)
  then have eq: "t - 1 = of_int (n - m) * 2 powi (f64_exp t - 52)"
    by (simp add: divide_eq_eq f64_ulp_def)
  have "f64_exp (t - 1) \<le> f64_exp t"
    using rat_exp_mono [OF pos(1), of t] by (auto simp: f64_exp_def)
  then show ?thesis by (intro f64_rep_multiple [OF pos(1) eq]) simp
qed simp

section \<open>Values and operations\<close>

datatype f64 = Fin rat | PInf | NInf | NaN

text \<open>The largest finite value is below \<open>2 ^ 1024\<close>; what rounds to that or above is infinite.\<close>

definition f64_of_rat :: "rat \<Rightarrow> f64" where
  "f64_of_rat x =
     (let y = f64_mag \<bar>x\<bar>
      in if 2 ^ 1024 \<le> y then (if x < 0 then NInf else PInf)
         else Fin (if x < 0 then - y else y))"

text \<open>\<open>n as f64\<close> for an unsigned integer.\<close>

definition f64_of_nat :: "nat \<Rightarrow> f64" where
  "f64_of_nat n = f64_of_rat (of_nat n)"

fun f64_neg :: "f64 \<Rightarrow> f64" where
  "f64_neg (Fin a) = Fin (- a)"
| "f64_neg PInf = NInf"
| "f64_neg NInf = PInf"
| "f64_neg NaN = NaN"

fun f64_sgn :: "f64 \<Rightarrow> rat" where
  "f64_sgn (Fin a) = sgn a"
| "f64_sgn PInf = 1"
| "f64_sgn NInf = -1"
| "f64_sgn NaN = 0"

fun f64_add :: "f64 \<Rightarrow> f64 \<Rightarrow> f64" where
  "f64_add (Fin a) (Fin b) = f64_of_rat (a + b)"
| "f64_add NaN _ = NaN"
| "f64_add _ NaN = NaN"
| "f64_add PInf NInf = NaN"
| "f64_add NInf PInf = NaN"
| "f64_add PInf _ = PInf"
| "f64_add _ PInf = PInf"
| "f64_add NInf _ = NInf"
| "f64_add _ NInf = NInf"

text \<open>A product with an infinite factor: not a number with zero, else infinite with the sign.\<close>

fun f64_mul :: "f64 \<Rightarrow> f64 \<Rightarrow> f64" where
  "f64_mul (Fin a) (Fin b) = f64_of_rat (a * b)"
| "f64_mul NaN _ = NaN"
| "f64_mul _ NaN = NaN"
| "f64_mul x y =
     (let s = f64_sgn x * f64_sgn y
      in if s = 0 then NaN else if 0 < s then PInf else NInf)"

fun f64_le :: "f64 \<Rightarrow> f64 \<Rightarrow> bool" where
  "f64_le NaN _ = False"
| "f64_le _ NaN = False"
| "f64_le (Fin a) (Fin b) = (a \<le> b)"
| "f64_le NInf _ = True"
| "f64_le _ PInf = True"
| "f64_le _ _ = False"

fun f64_less :: "f64 \<Rightarrow> f64 \<Rightarrow> bool" where
  "f64_less NaN _ = False"
| "f64_less _ NaN = False"
| "f64_less (Fin a) (Fin b) = (a < b)"
| "f64_less PInf _ = False"
| "f64_less _ NInf = False"
| "f64_less NInf _ = True"
| "f64_less _ PInf = True"

instantiation f64 :: "{zero, one, plus, minus, times, ord}"
begin

definition "0 = Fin 0"
definition "1 = Fin 1"
definition "x + y = f64_add x y"
definition "x - y = f64_add x (f64_neg y)"
definition "x * y = f64_mul x y"
definition "x \<le> y \<longleftrightarrow> f64_le x y"
definition "x < y \<longleftrightarrow> f64_less x y"

instance ..

end

lemmas f64_ops = zero_f64_def one_f64_def plus_f64_def minus_f64_def times_f64_def
  less_eq_f64_def less_f64_def

text \<open>\<open>f64::min\<close>: the other operand when one is not a number.\<close>

fun f64_min :: "f64 \<Rightarrow> f64 \<Rightarrow> f64" where
  "f64_min NaN y = y"
| "f64_min x NaN = x"
| "f64_min x y = (if x < y then x else y)"

text \<open>
  \<open>Duration::as_secs_f64\<close>: the seconds as \<open>f64\<close> plus the sub-second nanoseconds as \<open>f64\<close> over
  \<open>1e9\<close>, each operation rounded.
\<close>

definition as_secs_f64 :: "duration \<Rightarrow> f64" where
  "as_secs_f64 d =
     f64_of_nat (d div 1000000000) + f64_of_rat (of_nat (d mod 1000000000) / 1000000000)"

text \<open>
  \<open>Duration::from_secs_f64\<close>: rounded to the nearest nanosecond; it panics (\<open>None\<close>) on negative,
  not-a-number and too large arguments.
\<close>

definition duration_from_secs_f64 :: "f64 \<Rightarrow> duration option" where
  "duration_from_secs_f64 s =
     (case s of
        Fin x \<Rightarrow>
          if 0 \<le> x \<and> round_even (x * 1000000000) < 2 ^ 64 * 1000000000
          then Some (nat (round_even (x * 1000000000))) else None
      | _ \<Rightarrow> None)"

section \<open>The rounding contract\<close>

text \<open>
  What the clients of the arithmetic rely on: rounding is monotone, keeps the integers up to
  \<open>2 ^ 53\<close>, and its results are fixed points.
\<close>

locale rounding =
  fixes rnd :: "rat \<Rightarrow> rat" and rep :: "rat \<Rightarrow> bool"
  assumes rnd_mono: "x \<le> y \<Longrightarrow> rnd x \<le> rnd y"
    and rnd_rep: "rep (rnd x)"
    and rnd_id: "rep x \<Longrightarrow> rnd x = x"
    and rep_nat: "n \<le> 2 ^ 53 \<Longrightarrow> rep (of_nat n)"
begin

lemma rnd_ge: "rep x \<Longrightarrow> x \<le> y \<Longrightarrow> x \<le> rnd y"
  using rnd_mono [of x y] by (simp add: rnd_id)

lemma rnd_ge_1: "1 \<le> y \<Longrightarrow> 1 \<le> rnd y"
  using rnd_ge [of 1 y] rep_nat [of 1] by simp

end

interpretation f64r: rounding f64_mag f64_rep
proof unfold_locales
  show "f64_mag x \<le> f64_mag y" if "x \<le> y" for x y using that by (rule f64_mag_mono)
  show "f64_rep (f64_mag x)" for x by (rule f64_rep_mag)
  show "f64_mag x = x" if "f64_rep x" for x using that by (simp add: f64_rep_def)
  show "f64_rep (of_nat n)" if "n \<le> 2 ^ 53" for n using that by (rule f64_rep_nat)
qed

lemma f64_of_rat_nonneg:
  "0 \<le> x \<Longrightarrow> f64_of_rat x = (if 2 ^ 1024 \<le> f64_mag x then PInf else Fin (f64_mag x))"
  by (simp add: f64_of_rat_def Let_def)

lemma f64_of_rat_rep: "f64_rep x \<Longrightarrow> x < 2 ^ 1024 \<Longrightarrow> f64_of_rat x = Fin x"
  using f64_of_rat_nonneg [of x] by (simp add: f64_rep_def)

lemma two_pow_53_1024: "(2::rat) ^ 53 < 2 ^ 1024"
  by (rule power_strict_increasing) simp_all

lemma f64_of_nat_small: "n \<le> 2 ^ 53 \<Longrightarrow> f64_of_nat n = Fin (of_nat n)"
proof -
  assume n: "n \<le> 2 ^ 53"
  then have "(of_nat n :: rat) \<le> of_nat (2 ^ 53)" by (simp only: of_nat_le_iff)
  then have "(of_nat n :: rat) < 2 ^ 1024" using two_pow_53_1024 by simp
  with f64_rep_nat [OF n] show ?thesis by (simp add: f64_of_nat_def f64_of_rat_rep)
qed

lemma f64_of_nat_u32: "f64_of_nat (unat (w :: u32)) = Fin (of_nat (unat w))"
  using unsigned_less [of w, where ?'a = nat] by (intro f64_of_nat_small) simp

text \<open>Non-negative sums and products, up to overflow.\<close>

definition f64_nonneg :: "f64 \<Rightarrow> bool" where
  "f64_nonneg x \<longleftrightarrow> (case x of Fin a \<Rightarrow> 0 \<le> a | PInf \<Rightarrow> True | _ \<Rightarrow> False)"

lemma f64_nonneg_of_rat: "0 \<le> x \<Longrightarrow> f64_nonneg (f64_of_rat x)"
  by (simp add: f64_of_rat_nonneg f64_nonneg_def)

lemma f64_nonneg_of_nat [simp]: "f64_nonneg (f64_of_nat n)"
  by (simp add: f64_of_nat_def f64_nonneg_of_rat)

lemma f64_nonneg_add: "f64_nonneg x \<Longrightarrow> f64_nonneg y \<Longrightarrow> f64_nonneg (x + y)"
  by (cases x; cases y) (auto simp: f64_nonneg_def f64_ops f64_of_rat_nonneg)

lemma f64_nonneg_as_secs [simp]: "f64_nonneg (as_secs_f64 d)"
  by (simp add: as_secs_f64_def f64_nonneg_add f64_nonneg_of_rat)

text \<open>Values that are not negative, or not a number.\<close>

definition f64_nn :: "f64 \<Rightarrow> bool" where
  "f64_nn x \<longleftrightarrow> x = NaN \<or> f64_nonneg x"

lemma f64_nn_mul: "f64_nonneg x \<Longrightarrow> 0 \<le> b \<Longrightarrow> f64_nn (x * Fin b)"
  by (cases x) (auto simp: f64_nn_def f64_nonneg_def f64_ops f64_of_rat_nonneg Let_def sgn_if)

lemma f64_nn_mul_nn: "f64_nonneg x \<Longrightarrow> f64_nn y \<Longrightarrow> f64_nn (x * y)"
  by (cases x; cases y)
    (auto simp: f64_nn_def f64_nonneg_def f64_ops f64_of_rat_nonneg Let_def sgn_if)

end
