(* ===== verification/Fed_Config.thy ===== *)
theory Fed_Config
  imports Fed_Protocol Fed_F64
begin

text \<open>
  Configuration (\<open>src/src/config.rs\<close>): the settings records with their defaults, the expansion
  of environment variables, and the validation that decides which configurations are accepted.
  A \<open>PathBuf\<close> is its string.  The YAML reader is code outside the repository and a parameter.
\<close>

section \<open>Settings\<close>

datatype transport_type = HttpPost | StreamableHttp

record connection_pool_config =
  max_idle_per_host :: nat
  idle_timeout_seconds :: u64

record tls_config =
  tls_verify :: bool
  ca_cert_path :: "string option"

record health_check_config =
  hc_enabled :: bool
  hc_interval_seconds :: u64
  hc_timeout_seconds :: u64
  failure_threshold :: u32
  backoff_multiplier :: f64

record server_config =
  sc_alias :: string
  sc_url :: string
  sc_auth_token :: "string option"
  sc_auth_token_file :: "string option"
  sc_transport :: transport_type
  sc_tags :: "string list"
  sc_health_check :: health_check_config
  sc_timeout_seconds :: "u64 option"
  sc_tls :: tls_config

record client_config =
  cc_token :: string
  cc_allowed_servers :: "string list"

record rate_limit_config =
  rl_enabled :: bool
  requests_per_second :: u32
  burst_size :: u32

record dns_discovery_config =
  dns_enabled :: bool
  srv_name :: string
  poll_interval_seconds :: u64
  dns_default_transport :: transport_type
  url_path :: string
  scheme :: string

record crd_discovery_config =
  crd_enabled :: bool
  crd_namespace :: string

record federation_settings =
  fs_listen :: string
  fs_endpoint :: string
  fs_auth_token :: "string option"
  fs_auth_token_file :: "string option"
  fs_connection_pool :: connection_pool_config
  tool_cache_ttl_seconds :: u64
  session_ttl_seconds :: u64
  fs_allowed_origins :: "string list"
  fs_clients :: "client_config list"
  fs_rate_limit :: rate_limit_config
  fs_dns_discovery :: dns_discovery_config
  fs_crd_discovery :: crd_discovery_config
  fs_session_secret :: "string option"
  shutdown_timeout_seconds :: u64

record federation_config =
  fc_federation :: federation_settings
  fc_servers :: "server_config list"

subsection \<open>Defaults\<close>

definition default_transport :: transport_type where
  "default_transport = HttpPost"

definition default_dns_discovery_config :: dns_discovery_config where
  "default_dns_discovery_config =
     \<lparr>dns_enabled = False, srv_name = [], poll_interval_seconds = 60,
      dns_default_transport = default_transport, url_path = ''/mcp'', scheme = ''http''\<rparr>"

definition default_rate_limit_config :: rate_limit_config where
  "default_rate_limit_config =
     \<lparr>rl_enabled = False, requests_per_second = 10, burst_size = 20\<rparr>"

definition default_connection_pool_config :: connection_pool_config where
  "default_connection_pool_config = \<lparr>max_idle_per_host = 10, idle_timeout_seconds = 90\<rparr>"

definition default_tls_config :: tls_config where
  "default_tls_config = \<lparr>tls_verify = True, ca_cert_path = None\<rparr>"

definition default_health_check_config :: health_check_config where
  "default_health_check_config =
     \<lparr>hc_enabled = True, hc_interval_seconds = 30, hc_timeout_seconds = 5,
      failure_threshold = 3, backoff_multiplier = Fin 2\<rparr>"

definition default_federation_settings :: federation_settings where
  "default_federation_settings =
     \<lparr>fs_listen = ''0.0.0.0:8080'', fs_endpoint = ''/mcp'', fs_auth_token = None,
      fs_auth_token_file = None, fs_connection_pool = default_connection_pool_config,
      tool_cache_ttl_seconds = 300, session_ttl_seconds = 1800, fs_allowed_origins = [],
      fs_clients = [], fs_rate_limit = default_rate_limit_config,
      fs_dns_discovery = default_dns_discovery_config,
      fs_crd_discovery = \<lparr>crd_enabled = False, crd_namespace = []\<rparr>,
      fs_session_secret = None, shutdown_timeout_seconds = 15\<rparr>"

section \<open>Environment variables\<close>

text \<open>
  The expansion loop.  \<open>env\<close> is \<open>std::env::var(\<dots>).ok()\<close>: the process environment is not part
  of the program.  \<open>result\<close> accumulates the output, \<open>remainder\<close> is what is left to scan.
\<close>

function interpolate_loop :: "(string \<Rightarrow> string option) \<Rightarrow> string \<Rightarrow> string \<Rightarrow> string" where
  "interpolate_loop env result remainder =
     (case str_find ''${'' remainder of
        None \<Rightarrow> result @ remainder
      | Some start \<Rightarrow>
          (let result = result @ take start remainder;
               after_open = drop (start + 2) remainder
           in case str_find ''}'' after_open of
                Some end_pos \<Rightarrow>
                  (let var_name = take end_pos after_open;
                       val = (case env var_name of None \<Rightarrow> [] | Some v \<Rightarrow> v)
                   in interpolate_loop env (result @ val) (drop (end_pos + 1) after_open))
              | None \<Rightarrow> result @ drop start remainder))"
  by pat_completeness auto
termination
proof (relation "measure (\<lambda>(env, result, remainder). length remainder)")
  show "wf (measure (\<lambda>(env, result, remainder). length remainder))" by simp
next
  fix env :: "string \<Rightarrow> string option" and result remainder start r a e v w
  assume "str_find ''${'' remainder = Some start" "a = drop (start + 2) remainder"
  then have "length a < length remainder"
    by (auto simp: str_find_Some_iff dest!: prefix_length_le)
  then show "((env, r @ w, drop (e + 1) a), (env, result, remainder))
      \<in> measure (\<lambda>(env, result, remainder). length remainder)" for w by simp
qed

declare interpolate_loop.simps [simp del]

definition interpolate_env_vars :: "(string \<Rightarrow> string option) \<Rightarrow> string \<Rightarrow> string" where
  "interpolate_env_vars env content = interpolate_loop env [] content"

section \<open>Parsing and validation\<close>

text \<open>The loop over the servers; \<open>aliases\<close> is the set of aliases seen so far.\<close>

fun validate_servers :: "string set \<Rightarrow> server_config list \<Rightarrow> federation_error + unit" where
  "validate_servers aliases [] = Inr ()"
| "validate_servers aliases (server # servers) =
     (if sc_alias server = [] then Inl (ConfigError ''server alias cannot be empty'')
      else if str_contains ''__'' (sc_alias server) then
        Inl (ConfigError (''server alias '' @ [CHR 0x27] @ sc_alias server @ [CHR 0x27]
          @ '' cannot contain '' @ [CHR 0x27] @ ''__'' @ [CHR 0x27]
          @ '' (reserved as namespace separator)''))
      else if sc_alias server \<in> aliases then
        Inl (ConfigError (''duplicate server alias: '' @ [CHR 0x27] @ sc_alias server @ [CHR 0x27]))
      else if sc_url server = [] then
        Inl (ConfigError (''server '' @ [CHR 0x27] @ sc_alias server @ [CHR 0x27] @ '' has empty url''))
      else validate_servers (insert (sc_alias server) aliases) servers)"

definition validate :: "federation_config \<Rightarrow> federation_error + unit" where
  "validate c =
     (if fc_servers c = [] then Inl (ConfigError ''at least one server must be configured'')
      else validate_servers {} (fc_servers c))"

text \<open>\<open>yaml\<close> is \<open>serde_yaml::from_str\<close>, with the text its error displays.\<close>

definition parse_config ::
  "(string \<Rightarrow> string option) \<Rightarrow> (string \<Rightarrow> string + federation_config) \<Rightarrow> string
   \<Rightarrow> federation_error + federation_config" where
  "parse_config env yaml content =
     (case yaml (interpolate_env_vars env content) of
        Inl e \<Rightarrow> Inl (ConfigError e)
      | Inr config \<Rightarrow> (case validate config of Inl e \<Rightarrow> Inl e | Inr _ \<Rightarrow> Inr config))"

text \<open>\<open>read\<close> is \<open>std::fs::read_to_string\<close>, with the text its error displays.\<close>

definition config_from_file ::
  "(string \<Rightarrow> string + string) \<Rightarrow> (string \<Rightarrow> string option)
   \<Rightarrow> (string \<Rightarrow> string + federation_config) \<Rightarrow> string \<Rightarrow> federation_error + federation_config" where
  "config_from_file read env yaml path =
     (case read path of
        Inl e \<Rightarrow> Inl (ConfigError (''failed to read config file '' @ path @ '': '' @ e))
      | Inr content \<Rightarrow> parse_config env yaml content)"

section \<open>Facts\<close>

text \<open>What an accepted alias satisfies.\<close>

definition alias_ok :: "string \<Rightarrow> bool" where
  "alias_ok a \<longleftrightarrow> a \<noteq> [] \<and> \<not> sublist ''__'' a"

definition servers_ok :: "server_config list \<Rightarrow> bool" where
  "servers_ok ss \<longleftrightarrow>
     distinct (map sc_alias ss) \<and> list_all (\<lambda>s. alias_ok (sc_alias s) \<and> sc_url s \<noteq> []) ss"

lemma validate_servers_ok_iff:
  "validate_servers aliases ss = Inr () \<longleftrightarrow>
     servers_ok ss \<and> set (map sc_alias ss) \<inter> aliases = {}"
  by (induction aliases ss rule: validate_servers.induct)
    (auto simp: servers_ok_def alias_ok_def str_simps)

lemma parse_config_Inr:
  "parse_config env yaml content = Inr c \<Longrightarrow>
     yaml (interpolate_env_vars env content) = Inr c \<and> validate c = Inr ()"
  by (auto simp: parse_config_def split: sum.splits)

lemma config_from_file_Inr:
  assumes "config_from_file read env yaml path = Inr c"
  shows "validate c = Inr ()"
  using assms by (auto simp: config_from_file_def split: sum.splits dest: parse_config_Inr)

lemma validate_Inr: "validate c = Inr () \<Longrightarrow> servers_ok (fc_servers c)"
  by (auto simp: validate_def validate_servers_ok_iff split: if_splits)

text \<open>C31: Validation accepts a configuration exactly when it names at least one server, every
  alias is non-empty and free of the separator, aliases are pairwise distinct and every URL is
  non-empty.\<close>

theorem validate_accepts_iff:
  "validate c = Inr () \<longleftrightarrow>
     fc_servers c \<noteq> [] \<and> distinct (map sc_alias (fc_servers c))
     \<and> (\<nexists>s. s \<in> set (fc_servers c)
           \<and> (sc_alias s = [] \<or> str_contains ''__'' (sc_alias s) \<or> sc_url s = []))"
  by (auto simp: validate_def validate_servers_ok_iff servers_ok_def alias_ok_def list_all_iff
      str_simps)

text \<open>The loop's accumulator only collects output.\<close>

lemma interpolate_loop_acc:
  "interpolate_loop env (a @ b) s = a @ interpolate_loop env b s"
proof (induction env b s arbitrary: a rule: interpolate_loop.induct)
  case (1 env b s)
  show ?case
  proof (cases "str_find ''${'' s")
    case None
    then show ?thesis by (simp add: interpolate_loop.simps [of _ _ s])
  next
    case (Some i)
    show ?thesis
    proof (cases "str_find ''}'' (drop (i + 2) s)")
      case None
      with Some show ?thesis by (simp add: interpolate_loop.simps [of _ _ s])
    next
      case (Some e)
      with \<open>str_find ''${'' s = Some i\<close> "1.IH" [OF \<open>str_find ''${'' s = Some i\<close> refl refl Some refl refl, of a]
      show ?thesis
        by (simp add: interpolate_loop.simps [of _ _ s] Let_def)
    qed
  qed
qed

lemma interpolate_plain: "\<not> sublist ''${'' s \<Longrightarrow> interpolate_env_vars env s = s"
  by (simp add: interpolate_env_vars_def interpolate_loop.simps [of _ _ s]
      flip: str_find_None_iff)

lemma str_find_open:
  assumes "\<not> sublist ''${'' a"
  shows "str_find ''${'' (a @ ''${'' @ b) = Some (length a)"
proof -
  have "\<not> sublist ''${'' (a @ butlast ''${'')"
    using assms by (auto simp: sublist_append sublist_Cons_right prefix_Cons)
  then have "split_once ''${'' (a @ ''${'' @ b) = Some (a, b)"
    by (subst split_once_append_iff) simp_all
  then obtain i where i: "str_find ''${'' (a @ ''${'' @ b) = Some i" "take i (a @ ''${'' @ b) = a"
    by (auto simp: split_once_def split: option.splits)
  from i(1) have "i \<le> length (a @ ''${'' @ b)" by (simp only: str_find_Some_iff)
  then have "i = length (take i (a @ ''${'' @ b))" by (simp only: length_take min_absorb2)
  also have "\<dots> = length a" by (simp only: i(2))
  finally show ?thesis using i(1) by simp
qed

lemma str_find_char: "c \<notin> set n \<Longrightarrow> str_find [c] (n @ c # b) = Some (length n)"
  by (induction n) auto

lemma str_find_char_None: "str_find [c] u = None \<longleftrightarrow> c \<notin> set u"
  by (induction u) auto

lemma interpolate_var:
  assumes "\<not> sublist ''${'' a" "CHR ''}'' \<notin> set n"
  shows "interpolate_env_vars env (a @ ''${'' @ n @ ''}'' @ b) =
     a @ (case env n of None \<Rightarrow> [] | Some v \<Rightarrow> v) @ interpolate_env_vars env b"
  using str_find_open [OF assms(1), of "n @ ''}'' @ b"] str_find_char [OF assms(2), of b]
    interpolate_loop_acc [of env "a @ (case env n of None \<Rightarrow> [] | Some v \<Rightarrow> v)" "[]" b]
  by (simp add: interpolate_env_vars_def interpolate_loop.simps [of _ _ "a @ CHR ''$'' # w" for w])

lemma interpolate_unclosed:
  assumes "\<not> sublist ''${'' a" "CHR ''}'' \<notin> set u"
  shows "interpolate_env_vars env (a @ ''${'' @ u) = a @ ''${'' @ u"
  using str_find_open [OF assms(1), of u] str_find_char_None [THEN iffD2, OF assms(2)]
  by (simp add: interpolate_env_vars_def interpolate_loop.simps [of _ _ "a @ CHR ''$'' # w" for w])

text \<open>
  A template: literal text and variable names in alternation, then a tail that holds no closed
  reference.
\<close>

definition template_source :: "(string \<times> string) list \<Rightarrow> string \<Rightarrow> string" where
  "template_source ps tail = concat (map (\<lambda>(l, n). l @ ''${'' @ n @ ''}'') ps) @ tail"

definition template_value :: "(string \<Rightarrow> string option) \<Rightarrow> (string \<times> string) list \<Rightarrow> string \<Rightarrow> string" where
  "template_value env ps tail =
     concat (map (\<lambda>(l, n). l @ (case env n of None \<Rightarrow> [] | Some v \<Rightarrow> v)) ps) @ tail"

definition template_ok :: "(string \<times> string) list \<Rightarrow> string \<Rightarrow> bool" where
  "template_ok ps tail \<longleftrightarrow>
     list_all (\<lambda>(l, n). \<not> str_contains ''${'' l \<and> CHR ''}'' \<notin> set n) ps
     \<and> (case split_once ''${'' tail of None \<Rightarrow> True | Some (_, u) \<Rightarrow> CHR ''}'' \<notin> set u)"

lemma interpolate_tail:
  assumes "case split_once ''${'' tail of None \<Rightarrow> True | Some (_, u) \<Rightarrow> CHR ''}'' \<notin> set u"
  shows "interpolate_env_vars env tail = tail"
proof (cases "split_once ''${'' tail")
  case None
  then show ?thesis by (simp add: split_once_None interpolate_plain)
next
  case (Some p)
  obtain a u where p: "p = (a, u)" by (cases p)
  from Some p have tail: "tail = a @ ''${'' @ u" using split_once_Some by blast
  with Some p have "\<not> sublist ''${'' (a @ butlast ''${'')"
    using split_once_append_iff [of "''${''" a u] by simp
  then have "\<not> sublist ''${'' a" by (auto simp: sublist_append)
  moreover have "CHR ''}'' \<notin> set u" using Some p assms by simp
  ultimately show ?thesis unfolding tail by (rule interpolate_unclosed)
qed

text \<open>C32: Expansion replaces every closed reference by the variable's value (nothing when it is
  unset), does not rescan the inserted values, keeps all other text, and leaves an unclosed
  reference and what follows it untouched.\<close>

theorem interpolate_template:
  assumes "template_ok ps tail"
  shows "interpolate_env_vars env (template_source ps tail) = template_value env ps tail"
  using assms
proof (induction ps)
  case Nil
  then show ?case
    by (simp add: template_ok_def template_source_def template_value_def interpolate_tail)
next
  case (Cons p ps)
  obtain l n where p: "p = (l, n)" by (cases p)
  have "\<not> sublist ''${'' l" "CHR ''}'' \<notin> set n" "template_ok ps tail"
    using Cons.prems p by (simp_all add: template_ok_def str_simps)
  with Cons.IH interpolate_var [of l n env "template_source ps tail"] show ?case
    by (simp add: p template_source_def template_value_def)
qed

theorem interpolate_template_witness:
  "template_ok [(''token: '', ''TOKEN''), ('', x='', ''UNSET'')] '' end ${open''
   \<and> interpolate_env_vars [''TOKEN'' \<mapsto> ''${A}'']
       (template_source [(''token: '', ''TOKEN''), ('', x='', ''UNSET'')] '' end ${open'')
     = ''token: ${A}, x= end ${open''"
proof -
  have ok: "template_ok [(''token: '', ''TOKEN''), ('', x='', ''UNSET'')] '' end ${open''"
    by (simp add: template_ok_def str_contains_def split_once_def)
  show ?thesis
    using ok interpolate_template [OF ok, of "[''TOKEN'' \<mapsto> ''${A}'']"]
    by (simp add: template_value_def)
qed

end
