(* ===== verification/Fed_Env.thy ===== *)
theory Fed_Env
  imports Fed_Config
begin

text \<open>
  What the program asks of the world outside it: one HTTP exchange or stream, a file, the clock,
  the JSON reader and printer, and the texts of the HTTP library.  All of it is code outside the
  repository and collected in one parameter record; \<open>'w\<close> is the state of the world.  The module
  also has the \<open>?\<close> operator on fallible, state-changing code and the UTF-8 check of the standard
  library.
\<close>

text \<open>What an HTTP client is built with.\<close>

record http_config =
  hx_timeout :: duration
  hx_connect_timeout :: duration
  hx_pool_max_idle :: nat
  hx_pool_idle_timeout :: duration
  hx_accept_invalid_certs :: bool
  hx_root_certificate :: "string option"

record http_request =
  hr_method :: string
  hr_url :: string
  hr_headers :: "(string \<times> string) list"
  hr_body :: "json option"

text \<open>
  A response: its status, its headers as \<open>get\<close> followed by \<open>to_str().ok()\<close> reads them (names in
  lower case), and the outcome of reading the body.
\<close>

record http_response =
  hs_status :: u16
  hs_header :: "string \<Rightarrow> string option"
  hs_body :: "string + string"

record 'w env =
  http_send :: "http_config \<Rightarrow> http_request \<Rightarrow> 'w \<Rightarrow> (string + http_response) \<times> 'w"
  http_stream :: "http_config \<Rightarrow> http_request \<Rightarrow> 'w \<Rightarrow> (string + u16 \<times> (string + string) list) \<times> 'w"
  read_to_string :: "string \<Rightarrow> 'w \<Rightarrow> string + string"
  read_bytes :: "string \<Rightarrow> 'w \<Rightarrow> string + string"
  from_pem :: "string \<Rightarrow> string + string"
  clock :: "'w \<Rightarrow> instant"
  parse_json :: "string \<Rightarrow> string + json"
  to_string_pretty :: "json \<Rightarrow> string"
  status_text :: "u16 \<Rightarrow> string"
  status_error_text :: "string \<Rightarrow> u16 \<Rightarrow> string"

definition status_is_success :: "u16 \<Rightarrow> bool" where
  "status_is_success s \<longleftrightarrow> 200 \<le> s \<and> s < 300"

text \<open>\<open>Response::error_for_status\<close>: an error for the client and server error classes.\<close>

definition status_is_error :: "u16 \<Rightarrow> bool" where
  "status_is_error s \<longleftrightarrow> 400 \<le> s \<and> s < 600"

text \<open>\<open>CARGO_PKG_VERSION\<close>.\<close>

definition PKG_VERSION :: string where
  "PKG_VERSION = ''0.1.0''"

section \<open>Fallible effects\<close>

type_synonym ('s, 'a) eff = "'s \<Rightarrow> (federation_error + 'a) \<times> 's"

text \<open>\<open>m?\<close> and the rest of the function.\<close>

definition eff_bind :: "('s, 'a) eff \<Rightarrow> ('a \<Rightarrow> ('s, 'b) eff) \<Rightarrow> ('s, 'b) eff" where
  "eff_bind m f s = (case m s of (Inl e, s') \<Rightarrow> (Inl e, s') | (Inr x, s') \<Rightarrow> f x s')"

definition eff_ok :: "'a \<Rightarrow> ('s, 'a) eff" where
  "eff_ok x s = (Inr x, s)"

definition eff_err :: "federation_error \<Rightarrow> ('s, 'a) eff" where
  "eff_err e s = (Inl e, s)"

lemma eff_bind_Inr:
  "eff_bind m f s = (Inr y, s') \<longleftrightarrow> (\<exists>x s1. m s = (Inr x, s1) \<and> f x s1 = (Inr y, s'))"
  by (auto simp: eff_bind_def split: prod.splits sum.splits)

lemma eff_ok_err [simp]: "eff_ok x s = (Inr x, s)" "eff_err e s = (Inl e, s)"
  by (simp_all add: eff_ok_def eff_err_def)

section \<open>UTF-8\<close>

definition in_range :: "nat \<Rightarrow> nat \<Rightarrow> char \<Rightarrow> bool" where
  "in_range lo hi c \<longleftrightarrow> lo \<le> (of_char c :: nat) \<and> (of_char c :: nat) \<le> hi"

text \<open>The length and the range of the second byte that a first byte announces.\<close>

definition utf8_lead :: "char \<Rightarrow> (nat \<times> nat \<times> nat) option" where
  "utf8_lead c =
     (if in_range 0 0x7F c then Some (0, 0, 0)
      else if in_range 0xC2 0xDF c then Some (1, 0x80, 0xBF)
      else if in_range 0xE0 0xE0 c then Some (2, 0xA0, 0xBF)
      else if in_range 0xE1 0xEC c \<or> in_range 0xEE 0xEF c then Some (2, 0x80, 0xBF)
      else if in_range 0xED 0xED c then Some (2, 0x80, 0x9F)
      else if in_range 0xF0 0xF0 c then Some (3, 0x90, 0xBF)
      else if in_range 0xF1 0xF3 c then Some (3, 0x80, 0xBF)
      else if in_range 0xF4 0xF4 c then Some (3, 0x80, 0x8F)
      else None)"

function valid_utf8 :: "string \<Rightarrow> bool" where
  "valid_utf8 [] = True"
| "valid_utf8 (c # s) =
     (case utf8_lead c of
        None \<Rightarrow> False
      | Some (n, lo, hi) \<Rightarrow>
          n \<le> length s
          \<and> (n = 0 \<or> in_range lo hi (hd s) \<and> list_all (in_range 0x80 0xBF) (take (n - 1) (tl s)))
          \<and> valid_utf8 (drop n s))"
  by pat_completeness auto
termination by (relation "measure length") auto

declare valid_utf8.simps(2) [simp del]

text \<open>\<open>std::str::from_utf8(\<dots>).unwrap_or("")\<close>.\<close>

definition utf8_or_empty :: "string \<Rightarrow> string" where
  "utf8_or_empty bytes = (if valid_utf8 bytes then bytes else [])"

lemma valid_utf8_ascii_Cons: "(of_char c :: nat) < 128 \<Longrightarrow> valid_utf8 (c # s) = valid_utf8 s"
  by (simp add: valid_utf8.simps utf8_lead_def in_range_def)

end
