(* ===== verification/Fed_Notifications.thy ===== *)
theory Fed_Notifications
  imports Fed_Json
begin

text \<open>
  The notification broker (\<open>src/src/notifications.rs\<close>).  The bounded channels are the async
  runtime's: a sender is a value of type \<open>'tx\<close>, \<open>try_send\<close> and \<open>channel\<close> are parameters that act
  on the state \<open>'w\<close> of the outside world.
\<close>

datatype send_result = SendOk | SendFull | SendClosed

record 'tx broker =
  subscribers :: "(string, 'tx) hmap"

definition CHANNEL_BUFFER :: nat where
  "CHANNEL_BUFFER = 64"

definition broker_new :: "'tx broker" where
  "broker_new = \<lparr>subscribers = hm_empty\<rparr>"

definition subscribe ::
  "(nat \<Rightarrow> 'w \<Rightarrow> ('tx \<times> 'rx) \<times> 'w) \<Rightarrow> string \<Rightarrow> 'tx broker \<Rightarrow> 'w
   \<Rightarrow> (string \<times> 'rx) \<times> 'tx broker \<times> 'w" where
  "subscribe channel uuid b w =
     (let ((tx, rx), w') = channel CHANNEL_BUFFER w
      in ((uuid, rx), b\<lparr>subscribers := hm_insert uuid tx (subscribers b)\<rparr>, w'))"

definition unsubscribe :: "string \<Rightarrow> 'tx broker \<Rightarrow> bool \<times> 'tx broker" where
  "unsubscribe uid b =
     (hm_get (subscribers b) uid \<noteq> None, b\<lparr>subscribers := hm_remove uid (subscribers b)\<rparr>)"

text \<open>
  The first half of \<open>publish\<close>, under the read lock: offer the notification to each sender, count
  the deliveries and collect the ids whose channel is closed.
\<close>

fun publish_scan ::
  "('tx \<Rightarrow> json \<Rightarrow> 'w \<Rightarrow> send_result \<times> 'w) \<Rightarrow> json \<Rightarrow> (string \<times> 'tx) list
   \<Rightarrow> nat \<Rightarrow> string list \<Rightarrow> 'w \<Rightarrow> nat \<times> string list \<times> 'w" where
  "publish_scan try_send notification [] delivered to_remove w = (delivered, to_remove, w)"
| "publish_scan try_send notification ((uid, tx) # subs) delivered to_remove w =
     (case try_send tx notification w of
        (SendOk, w') \<Rightarrow> publish_scan try_send notification subs (delivered + 1) to_remove w'
      | (SendFull, w') \<Rightarrow> publish_scan try_send notification subs delivered to_remove w'
      | (SendClosed, w') \<Rightarrow>
          publish_scan try_send notification subs delivered (to_remove @ [uid]) w')"

text \<open>The second half, under the write lock: drop the collected ids from the table as it is now.\<close>

definition publish_sweep :: "string list \<Rightarrow> 'tx broker \<Rightarrow> 'tx broker" where
  "publish_sweep to_remove b =
     (if to_remove \<noteq> [] then b\<lparr>subscribers := fold hm_remove to_remove (subscribers b)\<rparr> else b)"

text \<open>
  The whole operation; \<open>meanwhile\<close> is what other tasks do to the table between the two locks (the
  identity when nothing happens).
\<close>

definition publish ::
  "('tx \<Rightarrow> json \<Rightarrow> 'w \<Rightarrow> send_result \<times> 'w) \<Rightarrow> ('tx broker \<Rightarrow> 'tx broker) \<Rightarrow> json
   \<Rightarrow> 'tx broker \<Rightarrow> 'w \<Rightarrow> nat \<times> 'tx broker \<times> 'w" where
  "publish try_send meanwhile notification b w =
     (let (delivered, to_remove, w') = publish_scan try_send notification (subscribers b) 0 [] w
      in (delivered, publish_sweep to_remove (meanwhile b), w'))"

definition subscriber_count :: "'tx broker \<Rightarrow> nat" where
  "subscriber_count b = length (hm_keys (subscribers b))"

section \<open>Facts\<close>

text \<open>The answers the channels give, in the order they are asked.\<close>

fun outcomes ::
  "('tx \<Rightarrow> json \<Rightarrow> 'w \<Rightarrow> send_result \<times> 'w) \<Rightarrow> json \<Rightarrow> (string \<times> 'tx) list \<Rightarrow> 'w
   \<Rightarrow> (string \<times> send_result) list" where
  "outcomes try_send n [] w = []"
| "outcomes try_send n ((uid, tx) # subs) w =
     (let (r, w') = try_send tx n w in (uid, r) # outcomes try_send n subs w')"

lemma outcomes_ids: "map fst (outcomes try_send n subs w) = map fst subs"
  by (induction subs arbitrary: w) (auto simp: Let_def split_beta)

lemma publish_scan_outcomes:
  "fst (publish_scan try_send n subs d tr w) =
     d + length (filter (\<lambda>(uid, r). r = SendOk) (outcomes try_send n subs w))"
  "fst (snd (publish_scan try_send n subs d tr w)) =
     tr @ map fst (filter (\<lambda>(uid, r). r = SendClosed) (outcomes try_send n subs w))"
  by (induction subs arbitrary: d tr w)
    (auto simp: Let_def split: prod.splits send_result.splits)

lemma publish_sweep_get:
  "hm_get (subscribers (publish_sweep tr b)) uid =
     (if uid \<in> set tr then None else hm_get (subscribers b) uid)"
  by (auto simp: publish_sweep_def hm.get_fold_remove)

lemma length_filter_fst:
  "distinct (map fst xs) \<Longrightarrow> length (filter P xs) = card {k. \<exists>v. (k, v) \<in> set xs \<and> P (k, v)}"
proof -
  assume "distinct (map fst xs)"
  then have "distinct (map fst (filter P xs))" by (simp add: distinct_map_filter)
  then have "length (filter P xs) = card (fst ` set (filter P xs))"
    using distinct_card [of "map fst (filter P xs)"] by simp
  also have "fst ` set (filter P xs) = {k. \<exists>v. (k, v) \<in> set xs \<and> P (k, v)}" by force
  finally show ?thesis .
qed

text \<open>Publishing offers the notification to every subscriber exactly once, returns how many
  channels took it, and drops exactly the subscribers whose channel was closed: a full channel
  keeps its place, and whatever happens to the table between the two locks, a subscriber that
  joins meanwhile stays.\<close>

lemma publish_spec:
  assumes "hm_wf (subscribers b)"
    and "publish try_send meanwhile n b w = (delivered, b', w')"
  shows "map fst (outcomes try_send n (subscribers b) w) = hm_keys (subscribers b)
    \<and> delivered = card {uid. (uid, SendOk) \<in> set (outcomes try_send n (subscribers b) w)}
    \<and> hm_get (subscribers b') uid =
        (if (uid, SendClosed) \<in> set (outcomes try_send n (subscribers b) w) then None
         else hm_get (subscribers (meanwhile b)) uid)"
proof -
  let ?o = "outcomes try_send n (subscribers b) w"
  have ids: "map fst ?o = hm_keys (subscribers b)" by (simp add: outcomes_ids hm_keys_def)
  then have d: "distinct (map fst ?o)" using hm.distinct_keys [OF assms(1)] by simp
  have "delivered = length (filter (\<lambda>(uid, r). r = SendOk) ?o)"
    using assms(2) publish_scan_outcomes(1) [of try_send n "subscribers b" 0 "[]" w]
    by (simp add: publish_def split_beta Let_def)
  moreover have "b' = publish_sweep (map fst (filter (\<lambda>(uid, r). r = SendClosed) ?o)) (meanwhile b)"
    using assms(2) publish_scan_outcomes(2) [of try_send n "subscribers b" 0 "[]" w]
    by (simp add: publish_def split_beta Let_def)
  ultimately show ?thesis
    using ids length_filter_fst [OF d, of "\<lambda>(uid, r). r = SendOk"]
    by (auto simp: publish_sweep_get image_iff)
qed

end
