(* ===== verification/Fed_LeafClient.thy ===== *)
theory Fed_LeafClient
  imports Fed_Env Fed_Notifications
begin

text \<open>
  The client of one leaf server (\<open>src/src/leaf_client.rs\<close>): one HTTP exchange, the session and
  retry rules of the streamable transport, the JSON-RPC calls built on them, and the reader of
  server-sent events.
\<close>

record leaf_client =
  lc_alias :: string
  lc_url :: string
  lc_transport :: transport_type
  lc_http :: http_config
  lc_auth_token :: "string option"
  lc_auth_token_file :: "string option"
  lc_session_id :: "string option"
  lc_next_id :: u64

section \<open>Construction and small operations\<close>

text \<open>An unreadable or unparsable CA certificate is logged and left out.  The constructor panics when the
  HTTP library cannot build a client from these options; that outcome of the library is not modelled,
  and the client is always built.\<close>

definition leaf_client_new :: "'w env \<Rightarrow> 'w \<Rightarrow> server_config \<Rightarrow> connection_pool_config \<Rightarrow> leaf_client" where
  "leaf_client_new env w config pool =
     (let timeout = (case sc_timeout_seconds config of None \<Rightarrow> 30 | Some t \<Rightarrow> t);
          cert = (case ca_cert_path (sc_tls config) of
                    None \<Rightarrow> None
                  | Some path \<Rightarrow>
                      (case read_bytes env path w of
                         Inl e \<Rightarrow> None
                       | Inr bytes \<Rightarrow>
                           (case from_pem env bytes of Inl e \<Rightarrow> None | Inr cert \<Rightarrow> Some cert)))
      in \<lparr>lc_alias = sc_alias config, lc_url = sc_url config, lc_transport = sc_transport config,
          lc_http = \<lparr>hx_timeout = duration_from_secs timeout,
                     hx_connect_timeout = duration_from_secs (hc_timeout_seconds (sc_health_check config)),
                     hx_pool_max_idle = max_idle_per_host pool,
                     hx_pool_idle_timeout = duration_from_secs (idle_timeout_seconds pool),
                     hx_accept_invalid_certs = (\<not> tls_verify (sc_tls config)),
                     hx_root_certificate = cert\<rparr>,
          lc_auth_token = sc_auth_token config, lc_auth_token_file = sc_auth_token_file config,
          lc_session_id = None, lc_next_id = 1\<rparr>)"

definition resolve_auth_token :: "'w env \<Rightarrow> 'w \<Rightarrow> leaf_client \<Rightarrow> string option" where
  "resolve_auth_token env w c =
     (case lc_auth_token c of
        Some token \<Rightarrow> Some token
      | None \<Rightarrow>
          (case lc_auth_token_file c of
             Some path \<Rightarrow>
               (case read_to_string env path w of
                  Inr contents \<Rightarrow> Some (str_trim contents)
                | Inl e \<Rightarrow> None)
           | None \<Rightarrow> None))"

text \<open>\<open>fetch_add\<close> wraps.\<close>

definition next_request_id :: "leaf_client \<Rightarrow> u64 \<times> leaf_client" where
  "next_request_id c = (lc_next_id c, c\<lparr>lc_next_id := lc_next_id c + 1\<rparr>)"

definition bearer_headers :: "'w env \<Rightarrow> 'w \<Rightarrow> leaf_client \<Rightarrow> (string \<times> string) list" where
  "bearer_headers env w c =
     (case resolve_auth_token env w c of
        None \<Rightarrow> [] | Some token \<Rightarrow> [(''authorization'', ''Bearer '' @ token)])"

definition session_headers :: "leaf_client \<Rightarrow> (string \<times> string) list" where
  "session_headers c =
     (case lc_session_id c of None \<Rightarrow> [] | Some sid \<Rightarrow> [(''mcp-session-id'', sid)])"

section \<open>Server-sent events\<close>

definition LF :: char where
  "LF = CHR 0x0A"

text \<open>A \<open>data:\<close> line's payload, less one leading space.\<close>

definition sse_payload :: "string \<Rightarrow> string" where
  "sse_payload rest = (case strip_prefix '' '' rest of None \<Rightarrow> rest | Some p \<Rightarrow> p)"

definition sse_push :: "string \<Rightarrow> string \<Rightarrow> string" where
  "sse_push data payload = (if data \<noteq> [] then data @ [LF] else data) @ payload"

text \<open>\<open>parse_sse_body\<close>: the data lines of a whole body, then the JSON reader.\<close>

fun sse_collect :: "string list \<Rightarrow> string \<Rightarrow> string" where
  "sse_collect [] data = data"
| "sse_collect (raw # lines) data =
     (let line = strip_cr raw
      in if line = [] \<or> prefix '':'' line then sse_collect lines data
         else case strip_prefix ''data:'' line of
                Some rest \<Rightarrow> sse_collect lines (sse_push data (sse_payload rest))
              | None \<Rightarrow> sse_collect lines data)"

definition parse_sse_body :: "(string \<Rightarrow> string + json) \<Rightarrow> string \<Rightarrow> json option" where
  "parse_sse_body from_str body =
     (let data = sse_collect (str_lines body) []
      in if data = [] then None
         else case from_str data of Inr v \<Rightarrow> Some v | Inl e \<Rightarrow> None)"

text \<open>\<open>handle_sse_line\<close>: the event to dispatch, if the line ends one, and the new data buffer.\<close>

definition handle_sse_line :: "string \<Rightarrow> string \<Rightarrow> string option \<times> string" where
  "handle_sse_line line data_buf =
     (if line = [] then (if data_buf \<noteq> [] then (Some data_buf, []) else (None, data_buf))
      else if prefix '':'' line then (None, data_buf)
      else case strip_prefix ''data:'' line of
             Some payload \<Rightarrow> (None, sse_push data_buf (sse_payload payload))
           | None \<Rightarrow> (None, data_buf))"

text \<open>
  The byte loop of \<open>run_notification_stream\<close> over one chunk: the two buffers and the payloads
  dispatched so far.
\<close>

fun sse_bytes :: "string \<Rightarrow> string \<times> string \<times> string list \<Rightarrow> string \<times> string \<times> string list" where
  "sse_bytes [] (line_buf, data_buf, evs) = (line_buf, data_buf, evs)"
| "sse_bytes (b # bs) (line_buf, data_buf, evs) =
     (if b = LF then
        (let (ev, data') = handle_sse_line (utf8_or_empty (strip_cr line_buf)) data_buf
         in sse_bytes bs ([], data', evs @ (case ev of None \<Rightarrow> [] | Some e \<Rightarrow> [e])))
      else sse_bytes bs (line_buf @ [b], data_buf, evs))"

text \<open>
  The loop over the chunks and the flush at the end.  A failed chunk ends the loop with its error
  and without the flush; the payloads before it have been dispatched.
\<close>

fun sse_stream :: "(string + string) list \<Rightarrow> string \<times> string \<times> string list \<Rightarrow> string list \<times> string option" where
  "sse_stream (Inl e # cs) (line_buf, data_buf, evs) = (evs, Some e)"
| "sse_stream (Inr bytes # cs) st = sse_stream cs (sse_bytes bytes st)"
| "sse_stream [] (line_buf, data_buf, evs) =
     (let (ev, data') = (if line_buf \<noteq> [] then handle_sse_line (utf8_or_empty line_buf) data_buf
                         else (None, data_buf));
          evs' = evs @ (case ev of None \<Rightarrow> [] | Some e \<Rightarrow> [e])
      in (evs' @ (if data' \<noteq> [] then [data'] else []), None))"

text \<open>\<open>dispatch_event\<close>: the marker it adds, and the publication.\<close>

fun annotate_leaf :: "string \<Rightarrow> json \<Rightarrow> json" where
  "annotate_leaf alias (JObject obj) =
     (let params = (case map_of obj ''params'' of None \<Rightarrow> JObject [] | Some p \<Rightarrow> p);
          params = (if json_is_object params then params else JObject [])
      in JObject (jmap_insert ''params'' (json_set ''_leaf'' (JString alias) params) obj))"
| "annotate_leaf alias v = v"

definition dispatch_event ::
  "(string \<Rightarrow> string + json) \<Rightarrow> ('tx \<Rightarrow> json \<Rightarrow> 'w \<Rightarrow> send_result \<times> 'w) \<Rightarrow> string \<Rightarrow> string
   \<Rightarrow> 'tx broker \<times> 'w \<Rightarrow> 'tx broker \<times> 'w" where
  "dispatch_event from_str try_send alias payload s =
     (case from_str payload of
        Inl e \<Rightarrow> s
      | Inr v \<Rightarrow> snd (publish try_send (\<lambda>b. b) (annotate_leaf alias v) (fst s) (snd s)))"

definition stream_request :: "'w env \<Rightarrow> 'w \<Rightarrow> leaf_client \<Rightarrow> http_request" where
  "stream_request env w c =
     \<lparr>hr_method = ''GET'', hr_url = lc_url c,
      hr_headers = [(''accept'', ''text/event-stream'')] @ bearer_headers env w c @ session_headers c,
      hr_body = None\<rparr>"

definition run_notification_stream ::
  "'w env \<Rightarrow> ('tx \<Rightarrow> json \<Rightarrow> 'w \<Rightarrow> send_result \<times> 'w) \<Rightarrow> leaf_client
   \<Rightarrow> ('tx broker \<times> 'w, unit) eff" where
  "run_notification_stream env try_send c s =
     (case http_stream env (lc_http c) (stream_request env (snd s) c) (snd s) of
        (Inl e, w) \<Rightarrow> (Inl (LeafUnreachable (lc_alias c) e), (fst s, w))
      | (Inr (status, chunks), w) \<Rightarrow>
          if \<not> status_is_success status then
            (Inl (LeafError (lc_alias c) (''SSE GET returned HTTP '' @ status_text env status)), (fst s, w))
          else
            (let (evs, failed) = sse_stream chunks ([], [], []);
                 s' = fold (dispatch_event (parse_json env) try_send (lc_alias c)) evs (fst s, w)
             in (case failed of
                   Some e \<Rightarrow> Inl (LeafUnreachable (lc_alias c) e) | None \<Rightarrow> Inr (), s')))"

text \<open>The guard of \<open>listen_notifications\<close>; the task it spawns runs the stream above.\<close>

definition listen_notifications :: "leaf_client \<Rightarrow> federation_error + unit" where
  "listen_notifications c =
     (if lc_transport c \<noteq> StreamableHttp
      then Inl (LeafError (lc_alias c) ''listen_notifications requires streamable-http transport'')
      else Inr ())"

section \<open>Requests\<close>

text \<open>The request \<open>send_once\<close> builds.\<close>

definition once_request :: "'w env \<Rightarrow> json \<Rightarrow> leaf_client \<times> 'w \<Rightarrow> http_request" where
  "once_request env body s =
     (let (c, w) = s
      in \<lparr>hr_method = ''POST'', hr_url = lc_url c,
          hr_headers = [(''content-type'', ''application/json'')] @ bearer_headers env w c
            @ (if lc_transport c = StreamableHttp
               then [(''accept'', ''application/json, text/event-stream'')] @ session_headers c
               else []),
          hr_body = Some body\<rparr>)"

definition reply_value :: "'w env \<Rightarrow> string \<Rightarrow> string \<Rightarrow> json" where
  "reply_value env content_type bytes =
     (if prefix ''text/event-stream'' content_type
      then case parse_sse_body (parse_json env) (utf8_or_empty bytes) of
             None \<Rightarrow> JNull | Some v \<Rightarrow> v
      else case parse_json env bytes of Inl e \<Rightarrow> JNull | Inr v \<Rightarrow> v)"

definition send_once :: "'w env \<Rightarrow> json \<Rightarrow> (leaf_client \<times> 'w, u16 \<times> json) eff" where
  "send_once env body s =
     (let (c, w) = s
      in case http_send env (lc_http c) (once_request env body s) w of
           (Inl e, w') \<Rightarrow> (Inl (LeafUnreachable (lc_alias c) e), (c, w'))
         | (Inr response, w') \<Rightarrow>
             (let c' = (if lc_transport c = StreamableHttp
                        then case hs_header response ''mcp-session-id'' of
                               Some sid \<Rightarrow> c\<lparr>lc_session_id := Some sid\<rparr> | None \<Rightarrow> c
                        else c);
                  content_type = (case hs_header response ''content-type'' of
                                    Some t \<Rightarrow> t | None \<Rightarrow> [])
              in case hs_body response of
                   Inl e \<Rightarrow> (Inl (LeafUnreachable (lc_alias c) e), (c', w'))
                 | Inr bytes \<Rightarrow>
                     (Inr (hs_status response, reply_value env content_type bytes), (c', w'))))"

definition rpc_body :: "u64 \<Rightarrow> string \<Rightarrow> json \<Rightarrow> json" where
  "rpc_body rid method params =
     json_obj [(''jsonrpc'', JString ''2.0''), (''id'', json_nat (unat rid)),
               (''method'', JString method), (''params'', params)]"

definition initialize_params :: json where
  "initialize_params =
     json_obj [(''protocolVersion'', JString ''2025-11-25''), (''capabilities'', json_obj []),
               (''clientInfo'', json_obj [(''name'', JString ''mcp-federation''),
                                          (''version'', JString PKG_VERSION)])]"

definition initialized_notification :: json where
  "initialized_notification =
     json_obj [(''jsonrpc'', JString ''2.0''), (''method'', JString ''notifications/initialized''),
               (''params'', json_obj [])]"

text \<open>\<open>initialize\<close>: forget the session, one exchange, then the notification whose outcome is dropped.\<close>

definition initialize :: "'w env \<Rightarrow> (leaf_client \<times> 'w, json) eff" where
  "initialize env s =
     (let (c, w) = s;
          c0 = (if lc_transport c = StreamableHttp then c\<lparr>lc_session_id := None\<rparr> else c);
          (rid, c1) = next_request_id c0
      in eff_bind (send_once env (rpc_body rid ''initialize'' initialize_params))
           (\<lambda>(status, response) s.
              if \<not> status_is_success status then
                (Inl (LeafError (lc_alias c) (''initialize returned HTTP '' @ status_text env status)), s)
              else
                (let s' = snd (send_once env initialized_notification s)
                 in case json_get response ''result'' of
                      Some result \<Rightarrow> (Inr result, s')
                    | None \<Rightarrow> (Inl (LeafError (lc_alias c)
                        (''initialize response missing '' @ [CHR 0x27] @ ''result'' @ [CHR 0x27])), s')))
           (c1, w))"

text \<open>When the streamable transport starts over.\<close>

definition needs_retry :: "u16 \<Rightarrow> leaf_client \<Rightarrow> bool" where
  "needs_retry status c \<longleftrightarrow>
     lc_transport c = StreamableHttp
     \<and> (status = 404 \<or> (status = 400 \<and> lc_session_id c = None))"

definition send_request :: "'w env \<Rightarrow> json \<Rightarrow> (leaf_client \<times> 'w, json) eff" where
  "send_request env body =
     eff_bind (send_once env body) (\<lambda>(status, v) s.
       if needs_retry status (fst s) then
         eff_bind (initialize env) (\<lambda>_.
           eff_bind (send_once env body) (\<lambda>(retry_status, retry_value) s.
             if \<not> status_is_success retry_status then
               (Inl (LeafError (lc_alias (fst s))
                  (''leaf returned HTTP '' @ status_text env retry_status @ '' after session re-init'')), s)
             else (Inr retry_value, s))) s
       else if \<not> status_is_success status then
         (Inl (LeafError (lc_alias (fst s)) (''leaf returned HTTP '' @ status_text env status)), s)
       else (Inr v, s))"

section \<open>Calls\<close>

text \<open>A request with a fresh id.\<close>

definition rpc_call :: "'w env \<Rightarrow> string \<Rightarrow> json \<Rightarrow> (leaf_client \<times> 'w, json) eff" where
  "rpc_call env method params s =
     (let (rid, c) = next_request_id (fst s)
      in send_request env (rpc_body rid method params) (c, snd s))"

text \<open>The array under \<open>result.<field>\<close>, or nothing.\<close>

definition list_field :: "string \<Rightarrow> json \<Rightarrow> json list" where
  "list_field field response =
     (case Option.bind (Option.bind (json_get response ''result'') (\<lambda>r. json_get r field)) json_as_array of
        None \<Rightarrow> [] | Some xs \<Rightarrow> xs)"

definition list_tools :: "'w env \<Rightarrow> (leaf_client \<times> 'w, json list) eff" where
  "list_tools env =
     eff_bind (rpc_call env ''tools/list'' (json_obj [])) (\<lambda>response. eff_ok (list_field ''tools'' response))"

definition list_resources :: "'w env \<Rightarrow> (leaf_client \<times> 'w, json list) eff" where
  "list_resources env =
     eff_bind (rpc_call env ''resources/list'' (json_obj []))
       (\<lambda>response. eff_ok (list_field ''resources'' response))"

definition list_prompts :: "'w env \<Rightarrow> (leaf_client \<times> 'w, json list) eff" where
  "list_prompts env =
     eff_bind (rpc_call env ''prompts/list'' (json_obj [])) (\<lambda>response. eff_ok (list_field ''prompts'' response))"

text \<open>The checks shared by the calls that return the leaf's result.\<close>

definition reply_result :: "string \<Rightarrow> string \<Rightarrow> json \<Rightarrow> federation_error + json" where
  "reply_result alias missing response =
     (case json_get response ''error'' of
        Some err \<Rightarrow>
          Inl (LeafError alias (case json_get_str err ''message'' of Some m \<Rightarrow> m | None \<Rightarrow> ''unknown error''))
      | None \<Rightarrow>
          (case json_get response ''result'' of
             Some result \<Rightarrow> Inr result
           | None \<Rightarrow> Inl (LeafError alias
               (missing @ '' response missing '' @ [CHR 0x27] @ ''result'' @ [CHR 0x27]))))"

definition call_tool :: "'w env \<Rightarrow> string \<Rightarrow> json \<Rightarrow> (leaf_client \<times> 'w, json) eff" where
  "call_tool env tool_name arguments =
     eff_bind (rpc_call env ''tools/call''
         (json_obj [(''name'', JString tool_name), (''arguments'', arguments)]))
       (\<lambda>response s. (reply_result (lc_alias (fst s)) ''tool call'' response, s))"

definition get_prompt :: "'w env \<Rightarrow> string \<Rightarrow> json \<Rightarrow> (leaf_client \<times> 'w, json) eff" where
  "get_prompt env name arguments =
     eff_bind (rpc_call env ''prompts/get''
         (json_obj [(''name'', JString name), (''arguments'', arguments)]))
       (\<lambda>response s. (reply_result (lc_alias (fst s)) ''prompts/get'' response, s))"

definition read_resource :: "'w env \<Rightarrow> string \<Rightarrow> (leaf_client \<times> 'w, json) eff" where
  "read_resource env uri =
     eff_bind (rpc_call env ''resources/read'' (json_obj [(''uri'', JString uri)]))
       (\<lambda>response s. (reply_result (lc_alias (fst s)) ''resources/read'' response, s))"

definition health_url :: "leaf_client \<Rightarrow> string" where
  "health_url c = trim_end_matches ''/'' (trim_end_matches ''/mcp'' (lc_url c)) @ ''/healthz''"

definition health_check :: "'w env \<Rightarrow> leaf_client \<Rightarrow> ('w, unit) eff" where
  "health_check env c w =
     (case http_send env (lc_http c) \<lparr>hr_method = ''GET'', hr_url = health_url c, hr_headers = [], hr_body = None\<rparr> w of
        (Inl e, w') \<Rightarrow> (Inl (LeafUnreachable (lc_alias c) e), w')
      | (Inr response, w') \<Rightarrow>
          (if status_is_error (hs_status response)
           then Inl (LeafUnreachable (lc_alias c) (status_error_text env (health_url c) (hs_status response)))
           else Inr (), w'))"

section \<open>Facts: what a client sends\<close>

text \<open>The parts of a client no operation changes.\<close>

definition client_identity :: "leaf_client \<Rightarrow> leaf_client" where
  "client_identity c = c\<lparr>lc_session_id := None, lc_next_id := 0\<rparr>"

text \<open>An environment that also writes down every request it is given.\<close>

definition counted :: "'w env \<Rightarrow> ('w \<times> http_request list) env" where
  "counted env =
     \<lparr>http_send = (\<lambda>cfg rq (w, sent). let (r, w') = http_send env cfg rq w in (r, (w', sent @ [rq]))),
      http_stream = (\<lambda>cfg rq (w, sent). let (r, w') = http_stream env cfg rq w in (r, (w', sent @ [rq]))),
      read_to_string = (\<lambda>path (w, sent). read_to_string env path w),
      read_bytes = (\<lambda>path (w, sent). read_bytes env path w),
      from_pem = from_pem env, clock = (\<lambda>(w, sent). clock env w), parse_json = parse_json env,
      to_string_pretty = to_string_pretty env, status_text = status_text env,
      status_error_text = status_error_text env\<rparr>"

lemma counted_sel [simp]:
  "http_send (counted env) cfg rq (w, sent) =
     (fst (http_send env cfg rq w), (snd (http_send env cfg rq w), sent @ [rq]))"
  "read_to_string (counted env) path (w, sent) = read_to_string env path w"
  "parse_json (counted env) = parse_json env" "status_text (counted env) = status_text env"
  by (simp_all add: counted_def split_beta)

lemma counted_once_request [simp]:
  "once_request (counted env) body (c, (w, sent)) = once_request env body (c, w)"
  by (simp add: once_request_def bearer_headers_def resolve_auth_token_def
      cong: option.case_cong)

text \<open>Running on the environment with the log, for one exchange.\<close>

lemma counted_send_once:
  "send_once (counted env) body (c, (w, sent)) =
     (case send_once env body (c, w) of
        (r, (c', w')) \<Rightarrow> (r, (c', (w', sent @ [once_request env body (c, w)]))))"
  by (cases "http_send env (lc_http c) (once_request env body (c, w)) w")
    (simp add: send_once_def reply_value_def Let_def split: sum.split option.split)

lemma once_request_body [simp]: "hr_body (once_request env body s) = Some body"
  by (simp add: once_request_def split_beta Let_def)

lemma send_once_identity:
  assumes "send_once env body (c, w) = (r, (c', w'))"
  shows "client_identity c' = client_identity c"
    and "lc_transport c' = lc_transport c" and "lc_next_id c' = lc_next_id c"
    and "lc_transport c = HttpPost \<Longrightarrow> c' = c"
  using assms
  by (auto simp: send_once_def Let_def client_identity_def
      split: prod.splits sum.splits option.splits if_splits)

definition init_body :: "leaf_client \<Rightarrow> json" where
  "init_body c = rpc_body (lc_next_id c) ''initialize'' initialize_params"

lemma counted_initialize:
  assumes "initialize (counted env) (c, (w, sent)) = (r, (c', (w', sent')))"
  shows "\<exists>n \<in> {1, 2}. map hr_body sent' = map hr_body sent
            @ take n [Some (init_body c), Some initialized_notification]"
    and "\<exists>v. r = Inr v \<Longrightarrow> map hr_body sent' = map hr_body sent
            @ [Some (init_body c), Some initialized_notification]"
  using assms
  by (auto simp: initialize_def Let_def next_request_id_def eff_bind_def counted_send_once
      init_body_def split_beta split: prod.splits sum.splits option.splits if_splits)

text \<open>C15: The traffic of one request is bounded.  With the plain transport it is exactly the
  request itself; with the streamable transport it is the request, and after a lost session one
  initialize, its notification and the request once more, never anything else.\<close>

theorem send_request_traffic:
  "\<exists>n \<in> (case lc_transport c of HttpPost \<Rightarrow> {1} | StreamableHttp \<Rightarrow> {1, 2, 3, 4}).
     map hr_body (snd (snd (snd (send_request (counted env) body (c, (w, []))))))
     = take n [Some body, Some (init_body c), Some initialized_notification, Some body]"
proof -
  obtain r c1 w1 where once: "send_once env body (c, w) = (r, (c1, w1))" by (metis surj_pair)
  note idn = send_once_identity [OF once]
  have ib: "init_body c1 = init_body c" using idn(3) by (simp add: init_body_def)
  show ?thesis
  proof (cases "\<exists>status v. r = Inr (status, v) \<and> needs_retry status c1")
    case False
    then have "snd (snd (snd (send_request (counted env) body (c, (w, []))))) =
        [once_request env body (c, w)]"
      using once by (cases r) (auto simp: send_request_def eff_bind_def counted_send_once)
    then show ?thesis by (cases "lc_transport c") simp_all
  next
    case True
    then have st: "lc_transport c = StreamableHttp"
      using idn(2) by (auto simp: needs_retry_def)
    let ?sent = "[once_request env body (c, w)]"
    obtain r2 c2 w2 sent2 where
      init: "initialize (counted env) (c1, (w1, ?sent)) = (r2, (c2, (w2, sent2)))"
      by (cases "initialize (counted env) (c1, (w1, ?sent))" rule: prod_cases4)
    show ?thesis
    proof (cases r2)
      case (Inl e)
      with True once init st counted_initialize(1) [OF init] show ?thesis
        by (auto simp: send_request_def eff_bind_def counted_send_once ib)
    next
      case (Inr v)
      then have "map hr_body sent2 = [Some body, Some (init_body c), Some initialized_notification]"
        using counted_initialize(2) [OF init] by (simp add: ib)
      with True once init st Inr show ?thesis
        by (auto simp: send_request_def eff_bind_def counted_send_once split: prod.splits sum.splits)
    qed
  qed
qed

section \<open>Facts: what a client returns\<close>

lemma client_identity_updates [simp]:
  "client_identity (c\<lparr>lc_session_id := x\<rparr>) = client_identity c"
  "client_identity (c\<lparr>lc_next_id := n\<rparr>) = client_identity c"
  by (simp_all add: client_identity_def)

lemma send_once_identity_fst [simp]:
  "client_identity (fst (snd (send_once env b s))) = client_identity (fst s)"
  using send_once_identity(1) [of env b "fst s" "snd s"] by (cases "send_once env b s") auto

lemma initialize_identity_fst [simp]:
  "client_identity (fst (snd (initialize env s))) = client_identity (fst s)"
  by (cases s) (auto simp: initialize_def Let_def next_request_id_def eff_bind_def split_beta
      split: sum.split option.split)

lemma initialize_identity:
  "initialize env (c, w) = (r, (c', w')) \<Longrightarrow> client_identity c' = client_identity c"
  using initialize_identity_fst [of env "(c, w)"] by simp

text \<open>A returned value is the body of a successful exchange of the request itself.\<close>

lemma send_request_Inr:
  assumes "send_request env body (c, w) = (Inr v, s')"
  shows "\<exists>c1 w1 status. send_once env body (c1, w1) = (Inr (status, v), s')
           \<and> status_is_success status \<and> client_identity c1 = client_identity c"
proof -
  from assms obtain status v0 c1 w1 where
    once: "send_once env body (c, w) = (Inr (status, v0), (c1, w1))"
    by (auto simp: send_request_def eff_bind_Inr)
  note idn = send_once_identity(1) [OF once]
  show ?thesis
  proof (cases "needs_retry status c1")
    case True
    with assms once obtain i c2 w2 st2 where
      "initialize env (c1, w1) = (Inr i, (c2, w2))"
      "send_once env body (c2, w2) = (Inr (st2, v), s')" "status_is_success st2"
      by (auto simp: send_request_def eff_bind_Inr split: if_splits)
    with initialize_identity idn show ?thesis by metis
  next
    case False
    with assms once show ?thesis
      by (auto simp: send_request_def eff_bind_Inr split: if_splits)
  qed
qed

lemma reply_result_Inr [simp]:
  "reply_result alias missing response = Inr v \<longleftrightarrow>
     json_get response ''error'' = None \<and> json_get response ''result'' = Some v"
  by (auto simp: reply_result_def split: option.splits)

text \<open>C14: A tool result is authentic: when a call returns a value, the leaf answered a
  \<open>tools/call\<close> request with exactly this tool name and these arguments, over the client's own
  URL, transport and credentials, with a success status, no error member, and this value as its
  result member.\<close>

theorem call_tool_authentic:
  assumes "call_tool env tool_name arguments (c, w) = (Inr v, s')"
  shows "\<exists>c1 w1 status reply.
     send_once env (rpc_body (lc_next_id c) ''tools/call''
         (json_obj [(''name'', JString tool_name), (''arguments'', arguments)])) (c1, w1)
       = (Inr (status, reply), s')
     \<and> client_identity c1 = client_identity c \<and> status_is_success status
     \<and> json_get reply ''error'' = None \<and> json_get reply ''result'' = Some v"
proof -
  let ?body = "rpc_body (lc_next_id c) ''tools/call''
     (json_obj [(''name'', JString tool_name), (''arguments'', arguments)])"
  from assms obtain reply where
    r: "send_request env ?body (c\<lparr>lc_next_id := lc_next_id c + 1\<rparr>, w) = (Inr reply, s')"
    "json_get reply ''error'' = None" "json_get reply ''result'' = Some v"
    by (auto simp: call_tool_def eff_bind_Inr rpc_call_def next_request_id_def)
  from send_request_Inr [OF r(1)] r(2,3) show ?thesis
    by (auto simp: client_identity_def)
qed

text \<open>A world with one answer for every request, for the witnesses.\<close>

definition const_env :: "http_response \<Rightarrow> (string \<Rightarrow> string + json) \<Rightarrow> nat env" where
  "const_env resp parse =
     \<lparr>http_send = (\<lambda>cfg rq w. (Inr resp, Suc w)), http_stream = (\<lambda>cfg rq w. (Inl ''closed'', w)),
      read_to_string = (\<lambda>path w. Inl ''none''), read_bytes = (\<lambda>path w. Inl ''none''), from_pem = Inr,
      clock = (\<lambda>w. w), parse_json = parse, to_string_pretty = (\<lambda>v. []),
      status_text = (\<lambda>s. []), status_error_text = (\<lambda>u s. [])\<rparr>"

definition sample_client :: "transport_type \<Rightarrow> leaf_client" where
  "sample_client t =
     \<lparr>lc_alias = ''k8s'', lc_url = ''http://k8s/mcp'', lc_transport = t,
      lc_http = \<lparr>hx_timeout = 0, hx_connect_timeout = 0, hx_pool_max_idle = 0,
                 hx_pool_idle_timeout = 0, hx_accept_invalid_certs = False,
                 hx_root_certificate = None\<rparr>,
      lc_auth_token = None, lc_auth_token_file = None, lc_session_id = None, lc_next_id = 1\<rparr>"

definition ok_env :: "nat env" where
  "ok_env =
     const_env \<lparr>hs_status = 200, hs_header = (\<lambda>h. None), hs_body = Inr ''r''\<rparr>
       (\<lambda>s. if s = ''r'' then Inr (json_obj [(''result'', JString ''pods'')]) else Inl ''bad'')"

lemma ok_env_send_once_id:
  "send_once ok_env body (sample_client HttpPost\<lparr>lc_next_id := n\<rparr>, w) =
     (Inr (200, json_obj [(''result'', JString ''pods'')]), (sample_client HttpPost\<lparr>lc_next_id := n\<rparr>, Suc w))"
  by (simp add: send_once_def ok_env_def const_env_def sample_client_def reply_value_def Let_def)

theorem call_tool_authentic_witness:
  "\<exists>c1 w1 status reply.
     send_once ok_env (rpc_body 1 ''tools/call''
         (json_obj [(''name'', JString ''list_pods''), (''arguments'', JNull)])) (c1, w1)
       = (Inr (status, reply), (sample_client HttpPost\<lparr>lc_next_id := 2\<rparr>, 8))
     \<and> status_is_success status \<and> json_get reply ''result'' = Some (JString ''pods'')"
proof -
  have "call_tool ok_env ''list_pods'' JNull (sample_client HttpPost, 7) =
      (Inr (JString ''pods''), (sample_client HttpPost\<lparr>lc_next_id := 2\<rparr>, 8))"
    by (simp add: call_tool_def eff_bind_def rpc_call_def next_request_id_def send_request_def
        ok_env_send_once_id needs_retry_def status_is_success_def json_simps reply_result_def
        sample_client_def [THEN arg_cong, of lc_next_id] sample_client_def [THEN arg_cong, of lc_transport])
  from call_tool_authentic [OF this] show ?thesis
    by (auto simp: sample_client_def)
qed

section \<open>Facts: server-sent events\<close>

text \<open>The framing of one payload: a \<open>data:\<close> line for each of its lines, then a blank line.\<close>

definition sse_encode :: "string \<Rightarrow> string" where
  "sse_encode p = concat (map (\<lambda>l. ''data: '' @ l @ [LF]) (split_on LF p)) @ [LF]"

text \<open>
  Payloads the framing can carry: not empty, not starting with an empty line (the reader joins
  with a line feed only once it has collected something), without carriage returns, UTF-8.
\<close>

definition payload_ok :: "string \<Rightarrow> bool" where
  "payload_ok p \<longleftrightarrow>
     p \<noteq> [] \<and> hd p \<noteq> LF \<and> CHR 0x0D \<notin> set p \<and> list_all valid_utf8 (split_on LF p)"

lemma split_on_nonempty [simp]: "split_on c s \<noteq> []"
  by (cases s) auto

lemma split_on_line: "c \<notin> set l \<Longrightarrow> split_on c (l @ c # s) = l # split_on c s"
  by (induction l) auto

lemma split_on_no_sep: "l \<in> set (split_on c s) \<Longrightarrow> c \<notin> set l \<and> set l \<subseteq> set s"
proof (induction s arbitrary: l)
  case (Cons x s)
  obtain h t where "split_on c s = h # t" by (cases "split_on c s") auto
  with Cons.prems Cons.IH [of h] Cons.IH [of l] show ?case by (auto split: if_splits)
qed simp

lemma split_on_join: "hd (split_on c s) @ concat (map (Cons c) (tl (split_on c s))) = s"
proof (induction s)
  case (Cons x s)
  then show ?case by (cases "split_on c s") auto
qed simp

lemma split_on_hd_nonempty: "s \<noteq> [] \<Longrightarrow> hd s \<noteq> c \<Longrightarrow> hd (split_on c s) \<noteq> []"
  by (cases s) auto

lemma strip_cr_none: "CHR 0x0D \<notin> set l \<Longrightarrow> strip_cr l = l"
  by (auto simp: strip_cr_def str_simps split: option.split)

text \<open>A good line of a payload, framed.\<close>

definition line_ok :: "string \<Rightarrow> bool" where
  "line_ok l \<longleftrightarrow> LF \<notin> set l \<and> CHR 0x0D \<notin> set l \<and> valid_utf8 l"

lemma payload_lines_ok: "payload_ok p \<Longrightarrow> l \<in> set (split_on LF p) \<Longrightarrow> line_ok l"
  using split_on_no_sep [of l LF p] by (auto simp: payload_ok_def line_ok_def list_all_iff)

lemma data_line_strip [simp]: "line_ok l \<Longrightarrow> strip_cr (''data: '' @ l) = ''data: '' @ l"
  by (rule strip_cr_none) (simp add: line_ok_def)

lemma data_line_no_lf: "line_ok l \<Longrightarrow> LF \<notin> set (''data: '' @ l)"
  by (simp add: line_ok_def LF_def)

lemma data_line_payload:
  "strip_prefix ''data:'' (''data: '' @ l) = Some ('' '' @ l)" "sse_payload ('' '' @ l) = l"
  by (simp_all add: strip_prefix_def sse_payload_def)

lemma utf8_data_line: "line_ok l \<Longrightarrow> utf8_or_empty (''data: '' @ l) = ''data: '' @ l"
  by (simp add: line_ok_def utf8_or_empty_def valid_utf8_ascii_Cons)

lemma handle_data_line:
  "line_ok l \<Longrightarrow> handle_sse_line (utf8_or_empty (strip_cr (''data: '' @ l))) d = (None, sse_push d l)"
  using data_line_payload [of l]
  by (simp add: handle_sse_line_def utf8_data_line del: append_Cons) simp

lemma foldl_push_nonempty:
  "d \<noteq> [] \<Longrightarrow> foldl sse_push d ls = d @ concat (map (Cons LF) ls)"
  by (induction ls arbitrary: d) (auto simp: sse_push_def)

lemma foldl_push_lines: "payload_ok p \<Longrightarrow> foldl sse_push [] (split_on LF p) = p"
proof -
  assume ok: "payload_ok p"
  obtain l ls where s: "split_on LF p = l # ls" by (cases "split_on LF p") auto
  with ok split_on_hd_nonempty [of p LF] have "l \<noteq> []" by (simp add: payload_ok_def)
  with s split_on_join [of LF p] show ?thesis
    by (simp add: foldl_push_nonempty sse_push_def [of "[]"])
qed

text \<open>The byte loop on framed lines.\<close>

lemma sse_bytes_append: "sse_bytes (a @ b) st = sse_bytes b (sse_bytes a st)"
  by (induction a arbitrary: st) (auto simp: Let_def split_beta)

lemma sse_bytes_line:
  "LF \<notin> set l \<Longrightarrow> sse_bytes (l @ LF # rest) (lb, d, evs) =
     (case handle_sse_line (utf8_or_empty (strip_cr (lb @ l))) d of
        (ev, d') \<Rightarrow> sse_bytes rest ([], d', evs @ (case ev of None \<Rightarrow> [] | Some e \<Rightarrow> [e])))"
  by (induction l arbitrary: lb) (auto simp: Let_def)

lemma sse_bytes_data_lines:
  assumes "\<forall>l \<in> set ls. line_ok l"
  shows "sse_bytes (concat (map (\<lambda>l. ''data: '' @ l @ [LF]) ls) @ rest) ([], d, evs) =
         sse_bytes rest ([], foldl sse_push d ls, evs)"
  using assms
proof (induction ls arbitrary: d)
  case (Cons l ls)
  then have ok: "line_ok l" by simp
  have "sse_bytes (concat (map (\<lambda>l. ''data: '' @ l @ [LF]) (l # ls)) @ rest) ([], d, evs) =
      sse_bytes ((''data: '' @ l) @ LF # concat (map (\<lambda>l. ''data: '' @ l @ [LF]) ls) @ rest) ([], d, evs)"
    by simp
  also have "\<dots> = sse_bytes (concat (map (\<lambda>l. ''data: '' @ l @ [LF]) ls) @ rest) ([], sse_push d l, evs)"
    by (subst sse_bytes_line [OF data_line_no_lf [OF ok]])
      (simp only: append_Nil handle_data_line [OF ok] prod.case option.case append_Nil2)
  finally show ?case using Cons by simp
qed simp

lemma sse_bytes_encode:
  assumes "payload_ok p"
  shows "sse_bytes (sse_encode p @ rest) ([], [], evs) = sse_bytes rest ([], [], evs @ [p])"
proof -
  have "p \<noteq> []" using assms by (simp add: payload_ok_def)
  then show ?thesis
    using sse_bytes_data_lines [of "split_on LF p" "LF # rest" "[]" evs] payload_lines_ok [OF assms]
    by (simp add: sse_encode_def foldl_push_lines [OF assms] handle_sse_line_def strip_cr_none
        utf8_or_empty_def)
qed

lemma sse_bytes_encodes:
  "list_all payload_ok ps \<Longrightarrow> sse_bytes (concat (map sse_encode ps)) ([], [], evs) = ([], [], evs @ ps)"
  by (induction ps arbitrary: evs) (simp_all add: sse_bytes_encode)

lemma sse_stream_chunks: "sse_stream (map Inr cs) st = sse_stream [] (sse_bytes (concat cs) st)"
proof (induction cs arbitrary: st)
  case Nil
  then show ?case by (cases st) simp
next
  case (Cons c cs)
  then show ?case by (simp add: sse_bytes_append)
qed

text \<open>The same framing read as a whole body.\<close>

lemma str_lines_line: "LF \<notin> set l \<Longrightarrow> str_lines (l @ LF # rest) = strip_cr l # str_lines rest"
  using split_on_line [of LF l rest] by (simp add: str_lines_def Let_def LF_def)

lemma sse_collect_data_lines:
  assumes "\<forall>l \<in> set ls. line_ok l"
  shows "sse_collect (str_lines (concat (map (\<lambda>l. ''data: '' @ l @ [LF]) ls) @ rest)) d =
         sse_collect (str_lines rest) (foldl sse_push d ls)"
  using assms
proof (induction ls arbitrary: d)
  case (Cons l ls)
  then have ok: "line_ok l" by simp
  have "str_lines (concat (map (\<lambda>l. ''data: '' @ l @ [LF]) (l # ls)) @ rest) =
      (''data: '' @ l) # str_lines (concat (map (\<lambda>l. ''data: '' @ l @ [LF]) ls) @ rest)"
    using str_lines_line [OF data_line_no_lf [OF ok]] data_line_strip [OF ok] by simp
  with Cons data_line_payload [of l] data_line_strip [OF ok] show ?case by simp
qed simp

lemma parse_sse_body_encode:
  assumes "payload_ok p"
  shows "parse_sse_body from_str (sse_encode p) =
         (case from_str p of Inr v \<Rightarrow> Some v | Inl e \<Rightarrow> None)"
proof -
  have "p \<noteq> []" using assms by (simp add: payload_ok_def)
  moreover have "str_lines [LF] = [[]]" using str_lines_line [of "[]" "[]"]
    by (simp add: strip_cr_none) (simp add: str_lines_def)
  ultimately show ?thesis
    using sse_collect_data_lines [of "split_on LF p" "[LF]" "[]"] payload_lines_ok [OF assms]
    by (simp add: sse_encode_def parse_sse_body_def Let_def foldl_push_lines [OF assms] strip_cr_none)
qed

lemma sse_stream_payloads:
  assumes "list_all payload_ok ps" and "concat chunks = concat (map sse_encode ps)"
  shows "sse_stream (map Inr chunks) ([], [], []) = (ps, None)"
  using assms sse_bytes_encodes [of ps "[]"] by (simp add: sse_stream_chunks)

text \<open>C16: The event reader is exact and independent of packet boundaries: however the bytes of a
  sequence of framed payloads are cut into chunks, it dispatches exactly these payloads, in order
  and without error; and a single framed payload is what an inline event-stream answer is read
  as.\<close>

theorem sse_roundtrip:
  assumes "list_all payload_ok ps" and "concat chunks = concat (map sse_encode ps)"
  shows "sse_stream (map Inr chunks) ([], [], []) = (ps, None)
         \<and> (\<forall>p \<in> set ps. parse_sse_body from_str (sse_encode p) =
                (case from_str p of Inr v \<Rightarrow> Some v | Inl e \<Rightarrow> None))"
  using assms sse_stream_payloads [OF assms] by (auto simp: parse_sse_body_encode list_all_iff)

theorem sse_roundtrip_witness:
  "list_all payload_ok [''{}'', ''[1,'' @ [LF] @ ''2]'']
   \<and> sse_stream (map Inr [''dat'', ''a: {}'' @ [LF, LF] @ ''data: [1'',
       '','' @ [LF] @ ''data: 2]'' @ [LF], [LF]]) ([], [], [])
     = ([''{}'', ''[1,'' @ [LF] @ ''2]''], None)"
proof -
  have ok: "list_all payload_ok [''{}'', ''[1,'' @ [LF] @ ''2]'']"
    by (simp add: payload_ok_def LF_def valid_utf8_ascii_Cons)
  have "concat [''dat'', ''a: {}'' @ [LF, LF] @ ''data: [1'', '','' @ [LF] @ ''data: 2]'' @ [LF], [LF]] =
      concat (map sse_encode [''{}'', ''[1,'' @ [LF] @ ''2]''])"
    by (simp add: sse_encode_def LF_def)
  from sse_roundtrip [OF ok this] ok show ?thesis by blast
qed

text \<open>A forwarded notification always names its true source: whatever object a leaf sends, the
  published one carries the leaf's own alias under \<open>params._leaf\<close> (also when the leaf wrote another
  name there, or sent parameters that are not an object), and keeps every other member and every
  other parameter.\<close>

lemma annotate_leaf_spec:
  assumes "json_is_object v"
  shows "json_get_str (json_index (annotate_leaf alias v) ''params'') ''_leaf'' = Some alias
    \<and> json_get (annotate_leaf alias v) = (json_get v)(''params'' := json_get (annotate_leaf alias v) ''params'')
    \<and> (json_get (json_index (annotate_leaf alias v) ''params''))(''_leaf'' := None)
       = (json_get (json_index v ''params''))(''_leaf'' := None)"
proof -
  obtain obj where v: "v = JObject obj" using assms by (cases v) auto
  have marker: "json_get_str (json_index (annotate_leaf alias v) ''params'') ''_leaf'' = Some alias"
    by (simp add: v json_index_def json_get_str_Some json_get_set Let_def)
  have members: "json_get (annotate_leaf alias v) =
      (json_get v)(''params'' := json_get (annotate_leaf alias v) ''params'')"
    by (simp add: v Let_def fun_eq_iff)
  have params: "json_get (json_index (annotate_leaf alias v) ''params'') q =
      json_get (json_index v ''params'') q" if "q \<noteq> ''_leaf''" for q
  proof -
    have "json_get p q = None" if "\<not> json_is_object p" for p using that by (cases p) auto
    with that show ?thesis by (auto simp: v json_index_def json_get_set Let_def split: option.split)
  qed
  show ?thesis
    by (intro conjI marker members ext) (simp add: params)
qed

end
