(* ===== verification/Fed_Registry.thy ===== *)
theory Fed_Registry
  imports Fed_LeafClient
begin

text \<open>
  The registry of leaf servers (\<open>src/src/registry.rs\<close>).  An \<open>Arc<LeafEntry>\<close> that a task holds
  keeps meaning the same entry when the table changes, so the entries live in a heap and the table
  maps aliases to addresses.  \<open>'w\<close> is the outside world.
\<close>

datatype leaf_health = Unknown | Healthy | Unhealthy

record leaf_entry =
  le_config :: server_config
  le_client :: leaf_client
  cached_tools :: "json list"
  cached_resources :: "json list"
  cached_prompts :: "json list"
  health :: leaf_health
  last_health_check :: "instant option"
  last_tool_refresh :: "instant option"
  consecutive_failures :: u32
  server_info :: "json option"

section \<open>One entry\<close>

definition leaf_new_with_pool :: "'w env \<Rightarrow> 'w \<Rightarrow> server_config \<Rightarrow> connection_pool_config \<Rightarrow> leaf_entry" where
  "leaf_new_with_pool env w config pool =
     \<lparr>le_config = config, le_client = leaf_client_new env w config pool, cached_tools = [],
      cached_resources = [], cached_prompts = [], health = Unknown, last_health_check = None,
      last_tool_refresh = None, consecutive_failures = 0, server_info = None\<rparr>"

definition mark_healthy :: "instant \<Rightarrow> leaf_entry \<Rightarrow> leaf_entry" where
  "mark_healthy now e = e\<lparr>health := Healthy, last_health_check := Some now, consecutive_failures := 0\<rparr>"

text \<open>The counter of failures is a \<open>u32\<close> and wraps around as in a release build; a build with overflow
  checks panics there, after 2^32 failures in a row.\<close>

definition mark_unhealthy :: "instant \<Rightarrow> leaf_entry \<Rightarrow> leaf_entry" where
  "mark_unhealthy now e =
     e\<lparr>health := Unhealthy, last_health_check := Some now,
       consecutive_failures := consecutive_failures e + 1\<rparr>"

definition record_failure :: "instant \<Rightarrow> leaf_entry \<Rightarrow> u32 \<times> leaf_entry" where
  "record_failure now e =
     (let failures = consecutive_failures e + 1
      in (failures, e\<lparr>last_health_check := Some now, consecutive_failures := failures\<rparr>))"

definition is_healthy :: "leaf_entry \<Rightarrow> bool" where
  "is_healthy e \<longleftrightarrow> health e \<noteq> Unhealthy"

definition mark_tools_refreshed :: "instant \<Rightarrow> leaf_entry \<Rightarrow> leaf_entry" where
  "mark_tools_refreshed now e = e\<lparr>last_tool_refresh := Some now\<rparr>"

definition tools_stale :: "duration \<Rightarrow> instant \<Rightarrow> leaf_entry \<Rightarrow> bool" where
  "tools_stale ttl now e \<longleftrightarrow>
     (case last_tool_refresh e of None \<Rightarrow> True | Some t \<Rightarrow> ttl \<le> elapsed now t)"

definition is_federation :: "leaf_entry \<Rightarrow> bool" where
  "is_federation e \<longleftrightarrow>
     (case Option.bind (server_info e) (\<lambda>v. json_get_str v ''name'') of
        None \<Rightarrow> False | Some s \<Rightarrow> s = ''mcp-federation'')"

section \<open>The table\<close>

record registry =
  leaves :: "(string, nat) hmap"
  leaf_heap :: "leaf_entry list"
  pool_config :: connection_pool_config

definition with_pool :: "connection_pool_config \<Rightarrow> registry" where
  "with_pool pool = \<lparr>leaves = hm_empty, leaf_heap = [], pool_config = pool\<rparr>"

text \<open>\<open>add_leaf\<close> of a newly allocated entry (every caller makes one); the previous address, if any.\<close>

definition add_leaf :: "string \<Rightarrow> leaf_entry \<Rightarrow> registry \<Rightarrow> nat option \<times> registry" where
  "add_leaf alias entry r =
     (hm_get (leaves r) alias,
      r\<lparr>leaves := hm_insert alias (length (leaf_heap r)) (leaves r), leaf_heap := leaf_heap r @ [entry]\<rparr>)"

definition remove_leaf :: "string \<Rightarrow> registry \<Rightarrow> nat option \<times> registry" where
  "remove_leaf alias r = (hm_get (leaves r) alias, r\<lparr>leaves := hm_remove alias (leaves r)\<rparr>)"

definition from_configs_with_pool ::
  "'w env \<Rightarrow> 'w \<Rightarrow> server_config list \<Rightarrow> connection_pool_config \<Rightarrow> registry" where
  "from_configs_with_pool env w configs pool =
     fold (\<lambda>config r. snd (add_leaf (sc_alias config) (leaf_new_with_pool env w config pool) r))
       configs (with_pool pool)"

definition get_leaf :: "string \<Rightarrow> registry \<Rightarrow> nat option" where
  "get_leaf alias r = hm_get (leaves r) alias"

definition all_leaves :: "registry \<Rightarrow> nat list" where
  "all_leaves r = map snd (leaves r)"

definition entry :: "registry \<Rightarrow> nat \<Rightarrow> leaf_entry" where
  "entry r a = leaf_heap r ! a"

definition healthy_leaves :: "registry \<Rightarrow> nat list" where
  "healthy_leaves r = filter (\<lambda>a. is_healthy (entry r a)) (all_leaves r)"

definition aliases :: "registry \<Rightarrow> string list" where
  "aliases r = hm_keys (leaves r)"

text \<open>A write through a reference to an entry.\<close>

definition update_leaf :: "nat \<Rightarrow> (leaf_entry \<Rightarrow> leaf_entry) \<Rightarrow> registry \<Rightarrow> registry" where
  "update_leaf a f r = r\<lparr>leaf_heap := (leaf_heap r)[a := f (entry r a)]\<rparr>"

text \<open>A call on an entry's client.\<close>

definition with_client ::
  "nat \<Rightarrow> (leaf_client \<times> 'w, 'a) eff \<Rightarrow> (registry \<times> 'w, 'a) eff" where
  "with_client a f s =
     (let (r, w) = s; (res, (c', w')) = f (le_client (entry r a), w)
      in (res, (update_leaf a (\<lambda>e. e\<lparr>le_client := c'\<rparr>) r, w')))"

definition write_leaf :: "nat \<Rightarrow> (leaf_entry \<Rightarrow> leaf_entry) \<Rightarrow> registry \<times> 'w \<Rightarrow> registry \<times> 'w" where
  "write_leaf a f s = (update_leaf a f (fst s), snd s)"

section \<open>Talking to the leaves\<close>

text \<open>
  A list call whose result replaces a cache; on an error the cache stays.  For the tools the entry
  is stamped as refreshed.
\<close>

definition cache_tools :: "'w env \<Rightarrow> nat \<Rightarrow> registry \<times> 'w \<Rightarrow> (federation_error + nat) \<times> registry \<times> 'w" where
  "cache_tools env a s =
     (case with_client a (list_tools env) s of
        (Inr tools, s1) \<Rightarrow>
          (Inr (length tools),
           write_leaf a (\<lambda>e. mark_tools_refreshed (clock env (snd s1)) (e\<lparr>cached_tools := tools\<rparr>)) s1)
      | (Inl e, s1) \<Rightarrow> (Inl e, s1))"

definition cache_resources :: "'w env \<Rightarrow> nat \<Rightarrow> registry \<times> 'w \<Rightarrow> registry \<times> 'w" where
  "cache_resources env a s =
     (case with_client a (list_resources env) s of
        (Inr xs, s1) \<Rightarrow> write_leaf a (\<lambda>e. e\<lparr>cached_resources := xs\<rparr>) s1
      | (Inl e, s1) \<Rightarrow> s1)"

definition cache_prompts :: "'w env \<Rightarrow> nat \<Rightarrow> registry \<times> 'w \<Rightarrow> registry \<times> 'w" where
  "cache_prompts env a s =
     (case with_client a (list_prompts env) s of
        (Inr xs, s1) \<Rightarrow> write_leaf a (\<lambda>e. e\<lparr>cached_prompts := xs\<rparr>) s1
      | (Inl e, s1) \<Rightarrow> s1)"

text \<open>The task \<open>initialize_all\<close> spawns for one leaf.\<close>

definition init_leaf :: "'w env \<Rightarrow> nat \<Rightarrow> registry \<times> 'w \<Rightarrow> registry \<times> 'w" where
  "init_leaf env a s =
     (case with_client a (initialize env) s of
        (Inr init_result, s1) \<Rightarrow>
          (let s2 = write_leaf a (mark_healthy (clock env (snd s1))) s1;
               s3 = (case json_get init_result ''serverInfo'' of
                       Some info \<Rightarrow> write_leaf a (\<lambda>e. e\<lparr>server_info := Some info\<rparr>) s2
                     | None \<Rightarrow> s2);
               s4 = snd (cache_tools env a s3);
               s5 = cache_resources env a s4
           in cache_prompts env a s5)
      | (Inl e, s1) \<Rightarrow> write_leaf a (mark_unhealthy (clock env (snd s1))) s1)"

text \<open>
  The shorter task the program spawns for a leaf added at run time: by the management API and the two
  discovery sources (\<open>keep_info\<close>), and by a configuration reload, which does not store the server
  information.
\<close>

definition warm_leaf :: "'w env \<Rightarrow> bool \<Rightarrow> nat \<Rightarrow> registry \<times> 'w \<Rightarrow> registry \<times> 'w" where
  "warm_leaf env keep_info a s =
     (case with_client a (initialize env) s of
        (Inr init_result, s1) \<Rightarrow>
          (let s2 = write_leaf a (mark_healthy (clock env (snd s1))) s1;
               s3 = (case json_get init_result ''serverInfo'' of
                       Some info \<Rightarrow>
                         if keep_info then write_leaf a (\<lambda>e. e\<lparr>server_info := Some info\<rparr>) s2 else s2
                     | None \<Rightarrow> s2)
           in snd (cache_tools env a s3))
      | (Inl e, s1) \<Rightarrow> write_leaf a (mark_unhealthy (clock env (snd s1))) s1)"

definition initialize_all :: "'w env \<Rightarrow> registry \<times> 'w \<Rightarrow> registry \<times> 'w" where
  "initialize_all env s = fold (init_leaf env) (all_leaves (fst s)) s"

definition refresh_tools :: "'w env \<Rightarrow> string \<Rightarrow> registry \<times> 'w \<Rightarrow> (string + nat) \<times> registry \<times> 'w" where
  "refresh_tools env alias s =
     (case get_leaf alias (fst s) of
        None \<Rightarrow> (Inl (''unknown leaf: '' @ alias), s)
      | Some a \<Rightarrow>
          (case cache_tools env a s of
             (Inr count, s') \<Rightarrow> (Inr count, s') | (Inl e, s') \<Rightarrow> (Inl (error_to_string e), s')))"

text \<open>The tasks of \<open>refresh_all_tools\<close>, one for each leaf of the table when it is called.\<close>

fun refresh_each ::
  "'w env \<Rightarrow> nat list \<Rightarrow> registry \<times> 'w \<Rightarrow> (string \<times> (string + nat)) list \<times> registry \<times> 'w" where
  "refresh_each env [] s = ([], s)"
| "refresh_each env (a # as) s =
     (let alias = sc_alias (le_config (entry (fst s) a));
          (res, s1) = cache_tools env a s;
          result = (case res of Inr count \<Rightarrow> Inr count | Inl e \<Rightarrow> Inl (error_to_string e));
          (results, s2) = refresh_each env as s1
      in ((alias, result) # results, s2))"

definition refresh_all_tools ::
  "'w env \<Rightarrow> registry \<times> 'w \<Rightarrow> (string \<times> (string + nat)) list \<times> registry \<times> 'w" where
  "refresh_all_tools env s = refresh_each env (all_leaves (fst s)) s"

section \<open>What calls keep of a client\<close>

named_theorems keeps_intros \<open>client calls that keep the client's identity\<close>

text \<open>
  A client's identity never changes, and a client of the plain transport never gets a session id.
\<close>

definition client_step :: "leaf_client \<Rightarrow> leaf_client \<Rightarrow> bool" where
  "client_step c c' \<longleftrightarrow>
     client_identity c' = client_identity c
     \<and> (lc_transport c = HttpPost \<longrightarrow> lc_session_id c' = lc_session_id c)"

definition keeps :: "(leaf_client \<times> 'w, 'a) eff \<Rightarrow> bool" where
  "keeps f \<longleftrightarrow> (\<forall>s. client_step (fst s) (fst (snd (f s))))"

lemma client_identity_transport:
  assumes "client_identity c' = client_identity c"
  shows "lc_transport c' = lc_transport c" "lc_alias c' = lc_alias c" "lc_url c' = lc_url c"
proof -
  have "lc_transport (client_identity x) = lc_transport x" "lc_alias (client_identity x) = lc_alias x"
    "lc_url (client_identity x) = lc_url x" for x by (simp_all add: client_identity_def)
  with assms show "lc_transport c' = lc_transport c" "lc_alias c' = lc_alias c" "lc_url c' = lc_url c"
    by metis+
qed

lemma client_step_refl [simp]: "client_step c c"
  by (simp add: client_step_def)

lemma client_step_trans: "client_step c c1 \<Longrightarrow> client_step c1 c2 \<Longrightarrow> client_step c c2"
  using client_identity_transport(1) [of c1 c] by (auto simp: client_step_def)

lemma keepsD: "keeps f \<Longrightarrow> client_step c c1 \<Longrightarrow> client_step c (fst (snd (f (c1, w))))"
  unfolding keeps_def by (metis client_step_trans fst_conv)

lemma keeps_bind [keeps_intros]:
  fixes m :: "(leaf_client \<times> 'w, 'a) eff"
  assumes "keeps m" "\<And>x. keeps (f x)"
  shows "keeps (eff_bind m f)"
  unfolding keeps_def
proof
  fix s :: "leaf_client \<times> 'w"
  obtain r s1 where ms: "m s = (r, s1)" by (cases "m s")
  then have "client_step (fst s) (fst s1)" using assms(1) unfolding keeps_def by (metis snd_conv)
  with assms(2) ms show "client_step (fst s) (fst (snd (eff_bind m f s)))"
    unfolding keeps_def eff_bind_def
    by (cases s1) (auto split: sum.split intro: client_step_trans)
qed

lemma keeps_pure: "(\<And>s. snd (f s) = s) \<Longrightarrow> keeps f"
  by (simp add: keeps_def)

lemma keeps_ok [keeps_intros]: "keeps (eff_ok x)"
  by (rule keeps_pure) simp

lemma keeps_send_once [keeps_intros]: "keeps (send_once (env :: 'w env) body)"
  unfolding keeps_def client_step_def
proof (intro allI conjI impI)
  fix s :: "leaf_client \<times> 'w"
  obtain c w r c' w' where s: "s = (c, w)" "send_once env body (c, w) = (r, (c', w'))"
    by (metis surj_pair)
  show "client_identity (fst (snd (send_once env body s))) = client_identity (fst s)" by simp
  assume "lc_transport (fst s) = HttpPost"
  with send_once_identity(4) [OF s(2)] s
  show "lc_session_id (fst (snd (send_once env body s))) = lc_session_id (fst s)" by simp
qed

lemma keeps_if: "keeps f \<Longrightarrow> keeps g \<Longrightarrow> keeps (\<lambda>s. if P s then f s else g s)"
  by (simp add: keeps_def)

lemma keeps_split: "(\<And>a b. keeps (f a b)) \<Longrightarrow> keeps (case x of (a, b) \<Rightarrow> f a b)"
  by (cases x) simp

lemma keeps_notify:
  "keeps (\<lambda>s. case x of None \<Rightarrow> (e, snd (send_once env b s)) | Some y \<Rightarrow> (g y, snd (send_once env b s)))"
  using keeps_send_once [of env b] by (cases x) (simp_all add: keeps_def)

lemma keeps_initialize [keeps_intros]: "keeps (initialize (env :: 'w env))"
  unfolding keeps_def
proof
  fix s :: "leaf_client \<times> 'w"
  obtain c w where s: "s = (c, w)" by (cases s)
  let ?c1 = "snd (next_request_id (if lc_transport c = StreamableHttp then c\<lparr>lc_session_id := None\<rparr> else c))"
  have c1: "client_step c ?c1" by (simp add: client_step_def next_request_id_def)
  show "client_step (fst s) (fst (snd (initialize env s)))"
    using c1 unfolding s initialize_def Let_def
    by (simp add: split_beta next_request_id_def)
      (intro conjI impI keepsD keeps_bind keeps_send_once keeps_split keeps_if keeps_notify; simp add: keeps_pure)
qed

lemma keeps_send_request [keeps_intros]: "keeps (send_request env body)"
  unfolding send_request_def split_beta
  by (intro keeps_bind keeps_if keeps_send_once keeps_initialize) (auto intro!: keeps_pure)

lemma keeps_rpc_call [keeps_intros]: "keeps (rpc_call (env :: 'w env) method params)"
  unfolding keeps_def
proof
  fix s :: "leaf_client \<times> 'w"
  have "client_step (fst s) (snd (next_request_id (fst s)))"
    by (simp add: client_step_def next_request_id_def)
  from keepsD [OF keeps_send_request this]
  show "client_step (fst s) (fst (snd (rpc_call env method params s)))"
    by (simp add: rpc_call_def split_beta Let_def)
qed

lemma keeps_calls [keeps_intros]:
  "keeps (list_tools env)" "keeps (list_resources env)" "keeps (list_prompts env)"
  "keeps (call_tool env n v)" "keeps (get_prompt env n v)" "keeps (read_resource env n)"
  unfolding list_tools_def list_resources_def list_prompts_def call_tool_def get_prompt_def
    read_resource_def
  by (intro keeps_intros keeps_pure; simp)+

section \<open>Changes to one entry\<close>

text \<open>From \<open>r\<close> to \<open>r'\<close> only the entry at \<open>a\<close> changed, and neither its settings nor its client's identity.\<close>

definition touches :: "nat \<Rightarrow> registry \<Rightarrow> registry \<Rightarrow> bool" where
  "touches a r r' \<longleftrightarrow>
     leaves r' = leaves r \<and> pool_config r' = pool_config r
     \<and> length (leaf_heap r') = length (leaf_heap r)
     \<and> (\<forall>b. b \<noteq> a \<longrightarrow> entry r' b = entry r b)
     \<and> le_config (entry r' a) = le_config (entry r a)
     \<and> client_step (le_client (entry r a)) (le_client (entry r' a))"

text \<open>The same for any number of entries: the table stays, and so do the settings and identities.\<close>

definition evolves :: "registry \<Rightarrow> registry \<Rightarrow> bool" where
  "evolves r r' \<longleftrightarrow>
     leaves r' = leaves r \<and> pool_config r' = pool_config r
     \<and> length (leaf_heap r') = length (leaf_heap r)
     \<and> (\<forall>b. le_config (entry r' b) = le_config (entry r b)
           \<and> client_step (le_client (entry r b)) (le_client (entry r' b)))"

lemma evolves_refl [simp]: "evolves r r"
  by (simp add: evolves_def)

lemma evolves_trans: "evolves r r1 \<Longrightarrow> evolves r1 r2 \<Longrightarrow> evolves r r2"
  by (auto simp: evolves_def intro: client_step_trans)

lemma touches_evolves: "touches a r r' \<Longrightarrow> evolves r r'"
  unfolding evolves_def touches_def by (metis client_step_refl)

lemma update_leaf_sel [simp]:
  "leaves (update_leaf a f r) = leaves r" "pool_config (update_leaf a f r) = pool_config r"
  "length (leaf_heap (update_leaf a f r)) = length (leaf_heap r)"
  by (simp_all add: update_leaf_def)

lemma entry_update_leaf [simp]:
  "entry (update_leaf a f r) b =
     (if b = a \<and> a < length (leaf_heap r) then f (entry r a) else entry r b)"
  by (cases "a < length (leaf_heap r)") (auto simp: entry_def update_leaf_def nth_list_update not_less list_update_beyond)

lemma touches_refl [simp]: "touches a r r"
  by (simp add: touches_def)

lemma touches_trans: "touches a r r1 \<Longrightarrow> touches a r1 r2 \<Longrightarrow> touches a r r2"
  by (auto simp: touches_def intro: client_step_trans)

lemma touches_update:
  assumes "\<And>e. le_config (f e) = le_config e" "\<And>e. le_client (f e) = le_client e"
  shows "touches a r (update_leaf a f r)"
  using assms by (simp add: touches_def)

lemma write_leaf_sel [simp]: "fst (write_leaf a f s) = update_leaf a f (fst s)" "snd (write_leaf a f s) = snd s"
  by (simp_all add: write_leaf_def)

lemma touches_with_client:
  assumes "keeps f"
  shows "touches a (fst s) (fst (snd (with_client a f s)))"
  using keepsD [OF assms client_step_refl, of "le_client (entry (fst s) a)" "snd s"]
  by (simp add: touches_def with_client_def split_beta Let_def)

lemma entry_marks [simp]:
  "le_config (mark_healthy t e) = le_config e" "le_client (mark_healthy t e) = le_client e"
  "le_config (mark_unhealthy t e) = le_config e" "le_client (mark_unhealthy t e) = le_client e"
  "le_config (mark_tools_refreshed t e) = le_config e" "le_client (mark_tools_refreshed t e) = le_client e"
  "le_config (snd (record_failure t e)) = le_config e" "le_client (snd (record_failure t e)) = le_client e"
  by (simp_all add: mark_healthy_def mark_unhealthy_def mark_tools_refreshed_def record_failure_def Let_def)

text \<open>The shape shared by the cache fills.\<close>

lemma touches_case:
  assumes "keeps f" "\<And>x s1. touches a (fst s1) (fst (g x s1))"
  shows "touches a (fst s) (fst (case with_client a f s of (Inr x, s1) \<Rightarrow> g x s1 | (Inl e, s1) \<Rightarrow> s1))"
  using touches_with_client [OF assms(1), of a s] assms(2)
  by (cases "with_client a f s") (auto split: sum.split intro: touches_trans)

lemma touches_cache_tools: "touches a (fst s) (fst (snd (cache_tools env a s)))"
proof -
  have "snd (cache_tools env a s) = (case with_client a (list_tools env) s of
      (Inr tools, s1) \<Rightarrow> write_leaf a (\<lambda>e. mark_tools_refreshed (clock env (snd s1)) (e\<lparr>cached_tools := tools\<rparr>)) s1
    | (Inl e, s1) \<Rightarrow> s1)"
    by (simp add: cache_tools_def split: prod.split sum.split)
  then show ?thesis by (simp add: touches_case keeps_calls touches_update)
qed

lemma touches_cache_rest:
  "touches a (fst s) (fst (cache_resources env a s))" "touches a (fst s) (fst (cache_prompts env a s))"
  unfolding cache_resources_def cache_prompts_def
  by (rule touches_case, rule keeps_calls, simp add: touches_update)+

lemma touches_init_leaf: "touches a (fst s) (fst (init_leaf env a s))"
proof -
  obtain res s1 where Pair: "with_client a (initialize env) s = (res, s1)"
    by (cases "with_client a (initialize env) s")
  have s1: "touches a (fst s) (fst s1)"
    using touches_with_client [OF keeps_initialize, of a s env] Pair by simp
  show ?thesis
  proof (cases res)
    case (Inl e)
    with Pair s1 touches_update [of "mark_unhealthy (clock env (snd s1))" a "fst s1"]
    show ?thesis by (auto simp: init_leaf_def intro: touches_trans)
  next
    case (Inr v)
    let ?s2 = "write_leaf a (mark_healthy (clock env (snd s1))) s1"
    let ?s3 = "case json_get v ''serverInfo'' of
        Some info \<Rightarrow> write_leaf a (\<lambda>e. e\<lparr>server_info := Some info\<rparr>) ?s2 | None \<Rightarrow> ?s2"
    have "touches a (fst s1) (fst ?s2)" by (simp add: touches_update)
    moreover have "touches a (fst ?s2) (fst ?s3)"
      by (auto split: option.split intro: touches_update)
    ultimately have "touches a (fst s) (fst ?s3)" using s1 by (blast intro: touches_trans)
    then have "touches a (fst s) (fst (cache_prompts env a (cache_resources env a (snd (cache_tools env a ?s3)))))"
      by (rule touches_trans [OF touches_trans [OF touches_trans]])
        (rule touches_cache_tools touches_cache_rest)+
    with Pair Inr show ?thesis by (simp add: init_leaf_def Let_def)
  qed
qed

lemma touches_warm_leaf: "touches a (fst s) (fst (warm_leaf env keep_info a s))"
proof -
  obtain res s1 where Pair: "with_client a (initialize env) s = (res, s1)"
    by (cases "with_client a (initialize env) s")
  have s1: "touches a (fst s) (fst s1)"
    using touches_with_client [OF keeps_initialize, of a s env] Pair by simp
  show ?thesis
  proof (cases res)
    case (Inl e)
    with Pair s1 touches_update [of "mark_unhealthy (clock env (snd s1))" a "fst s1"]
    show ?thesis by (auto simp: warm_leaf_def intro: touches_trans)
  next
    case (Inr v)
    let ?s2 = "write_leaf a (mark_healthy (clock env (snd s1))) s1"
    let ?s3 = "case json_get v ''serverInfo'' of
        Some info \<Rightarrow> if keep_info then write_leaf a (\<lambda>e. e\<lparr>server_info := Some info\<rparr>) ?s2 else ?s2
      | None \<Rightarrow> ?s2"
    have "touches a (fst s1) (fst ?s2)" by (simp add: touches_update)
    moreover have "touches a (fst ?s2) (fst ?s3)"
      by (auto split: option.split intro: touches_update)
    ultimately have "touches a (fst s) (fst ?s3)" using s1 by (blast intro: touches_trans)
    then have "touches a (fst s) (fst (snd (cache_tools env a ?s3)))"
      by (rule touches_trans) (rule touches_cache_tools)
    with Pair Inr show ?thesis by (simp add: warm_leaf_def Let_def)
  qed
qed

section \<open>The registry invariant\<close>

text \<open>An entry's client is the one its settings describe.\<close>

definition entry_ok :: "leaf_entry \<Rightarrow> bool" where
  "entry_ok e \<longleftrightarrow>
     lc_alias (le_client e) = sc_alias (le_config e) \<and> lc_url (le_client e) = sc_url (le_config e)
     \<and> lc_transport (le_client e) = sc_transport (le_config e)
     \<and> (sc_transport (le_config e) = HttpPost \<longrightarrow> lc_session_id (le_client e) = None)"

text \<open>Every address in the table is allocated, and an alias leads to the entry configured under it.\<close>

definition registry_ok :: "registry \<Rightarrow> bool" where
  "registry_ok r \<longleftrightarrow>
     hm_wf (leaves r) \<and> list_all entry_ok (leaf_heap r)
     \<and> (\<forall>alias a. get_leaf alias r = Some a \<longrightarrow>
           a < length (leaf_heap r) \<and> sc_alias (le_config (entry r a)) = alias)"

lemma entry_ok_step:
  assumes "entry_ok e" "le_config e' = le_config e" "client_step (le_client e) (le_client e')"
  shows "entry_ok e'"
  using assms client_identity_transport [of "le_client e'" "le_client e"]
  by (auto simp: entry_ok_def client_step_def)

lemma leaf_new_ok [simp]:
  "entry_ok (leaf_new_with_pool env w config pool)"
  "le_config (leaf_new_with_pool env w config pool) = config"
  by (simp_all add: entry_ok_def leaf_new_with_pool_def leaf_client_new_def Let_def)

lemma registry_ok_entry: "registry_ok r \<Longrightarrow> a < length (leaf_heap r) \<Longrightarrow> entry_ok (entry r a)"
  by (simp add: registry_ok_def list_all_length entry_def)

lemma evolves_ok:
  assumes "evolves r r'" "registry_ok r"
  shows "registry_ok r'"
proof -
  have "entry_ok (entry r' b)" if "b < length (leaf_heap r')" for b
    using assms that registry_ok_entry [OF assms(2), of b] by (auto simp: evolves_def intro: entry_ok_step)
  then have "list_all entry_ok (leaf_heap r')" by (simp add: list_all_length entry_def)
  then show ?thesis using assms by (auto simp: registry_ok_def evolves_def get_leaf_def)
qed

lemmas touches_ok = evolves_ok [OF touches_evolves]

lemma with_pool_ok: "registry_ok (with_pool pool)"
  by (simp add: registry_ok_def with_pool_def hm_simps get_leaf_def)

lemma add_leaf_ok:
  assumes "registry_ok r" "entry_ok e" "sc_alias (le_config e) = alias"
  shows "registry_ok (snd (add_leaf alias e r))"
  using assms
  by (auto simp: registry_ok_def add_leaf_def get_leaf_def hm_simps entry_def nth_append less_Suc_eq
      split: if_splits)

lemma remove_leaf_ok: "registry_ok r \<Longrightarrow> registry_ok (snd (remove_leaf alias r))"
  by (auto simp: registry_ok_def remove_leaf_def get_leaf_def hm_simps entry_def split: if_splits)

section \<open>The table as an interface\<close>

text \<open>
  What the components that add and remove leaves (configuration reload, the management API, the
  two discovery sources) rely on: a table of entries by alias.
\<close>

locale leaf_table =
  fixes ok :: "'s \<Rightarrow> bool"
    and good :: "'e \<Rightarrow> bool"
    and key :: "'e \<Rightarrow> string"
    and lookup :: "'s \<Rightarrow> string \<Rightarrow> 'e option"
    and put :: "string \<Rightarrow> 'e \<Rightarrow> 's \<Rightarrow> 's"
    and del :: "string \<Rightarrow> 's \<Rightarrow> 's"
  assumes lookup_put: "ok s \<Longrightarrow> lookup (put k e s) k' = (if k' = k then Some e else lookup s k')"
    and lookup_del: "ok s \<Longrightarrow> lookup (del k s) k' = (if k' = k then None else lookup s k')"
    and ok_put: "ok s \<Longrightarrow> good e \<Longrightarrow> key e = k \<Longrightarrow> ok (put k e s)"
    and ok_del: "ok s \<Longrightarrow> ok (del k s)"
    and lookup_key: "ok s \<Longrightarrow> lookup s k = Some e \<Longrightarrow> good e \<and> key e = k"
begin

lemma ok_fold_del: "ok s \<Longrightarrow> ok (fold del ks s)"
  by (induction ks arbitrary: s) (simp_all add: ok_del)

lemma lookup_fold_del: "ok s \<Longrightarrow> lookup (fold del ks s) k = (if k \<in> set ks then None else lookup s k)"
  by (induction ks arbitrary: s) (auto simp: ok_del lookup_del)

lemma ok_fold_put:
  "ok s \<Longrightarrow> list_all (\<lambda>x. good (val x) \<and> key (val x) = nm x) xs
     \<Longrightarrow> ok (fold (\<lambda>x. put (nm x) (val x)) xs s)"
  by (induction xs arbitrary: s) (simp_all add: ok_put)

lemma lookup_fold_put_notin:
  "ok s \<Longrightarrow> list_all (\<lambda>x. good (val x) \<and> key (val x) = nm x) xs \<Longrightarrow> k \<notin> nm ` set xs
     \<Longrightarrow> lookup (fold (\<lambda>x. put (nm x) (val x)) xs s) k = lookup s k"
  by (induction xs arbitrary: s) (simp_all add: ok_put lookup_put)

lemma lookup_fold_put_in:
  assumes "ok s" "list_all (\<lambda>x. good (val x) \<and> key (val x) = nm x) xs"
    "distinct (map nm xs)" "x \<in> set xs"
  shows "lookup (fold (\<lambda>x. put (nm x) (val x)) xs s) (nm x) = Some (val x)"
  using assms
proof (induction xs arbitrary: s)
  case (Cons y ys)
  then show ?case
    by (cases "x \<in> set ys") (auto simp: ok_put lookup_put lookup_fold_put_notin)
qed simp

text \<open>A source that adds the items \<open>xs\<close> and then removes the aliases \<open>gone\<close>.\<close>

lemma lookup_sync:
  assumes "ok s" "list_all (\<lambda>x. good (val x) \<and> key (val x) = nm x) xs" "distinct (map nm xs)"
    and "set gone \<inter> nm ` set xs = {}"
  shows "lookup (fold del gone (fold (\<lambda>x. put (nm x) (val x)) xs s)) k =
     (if k \<in> set gone then None
      else case find (\<lambda>x. nm x = k) xs of Some x \<Rightarrow> Some (val x) | None \<Rightarrow> lookup s k)"
proof (cases "find (\<lambda>x. nm x = k) xs")
  case None
  then have "k \<notin> nm ` set xs" by (auto simp: find_None_iff)
  with None assms show ?thesis by (simp add: lookup_fold_del ok_fold_put lookup_fold_put_notin)
next
  case (Some x)
  then have x: "x \<in> set xs" "nm x = k" by (auto simp: find_Some_iff)
  with lookup_fold_put_in [OF assms(1-3) x(1)] assms Some show ?thesis
    by (auto simp: lookup_fold_del ok_fold_put)
qed

end

definition leaf_at :: "registry \<Rightarrow> string \<Rightarrow> leaf_entry option" where
  "leaf_at r alias = map_option (entry r) (get_leaf alias r)"

text \<open>The settings of the leaf under each alias.\<close>

definition members :: "registry \<Rightarrow> string \<Rightarrow> server_config option" where
  "members r alias = map_option le_config (leaf_at r alias)"

lemma evolves_members: "evolves r r' \<Longrightarrow> members r' = members r"
  by (auto simp: fun_eq_iff members_def leaf_at_def get_leaf_def evolves_def option.map_comp comp_def)

definition put_leaf :: "string \<Rightarrow> leaf_entry \<Rightarrow> registry \<Rightarrow> registry" where
  "put_leaf alias e r = snd (add_leaf alias e r)"

definition del_leaf :: "string \<Rightarrow> registry \<Rightarrow> registry" where
  "del_leaf alias r = snd (remove_leaf alias r)"

interpretation rt: leaf_table registry_ok entry_ok "\<lambda>e. sc_alias (le_config e)" leaf_at put_leaf del_leaf
proof unfold_locales
  fix s k e k'
  assume "registry_ok s"
  then show "leaf_at (put_leaf k e s) k' = (if k' = k then Some e else leaf_at s k')"
    by (cases "hm_get (leaves s) k'")
      (auto simp: leaf_at_def put_leaf_def add_leaf_def get_leaf_def hm_simps entry_def
        registry_ok_def nth_append)
next
  fix s k k'
  assume "registry_ok s"
  then show "leaf_at (del_leaf k s) k' = (if k' = k then None else leaf_at s k')"
    by (cases "hm_get (leaves s) k'")
      (simp_all add: leaf_at_def del_leaf_def remove_leaf_def get_leaf_def hm_simps entry_def)
next
  fix s k e
  assume "registry_ok s" "leaf_at s k = Some e"
  then show "entry_ok e \<and> sc_alias (le_config e) = k"
    using registry_ok_entry by (auto simp: leaf_at_def registry_ok_def)
qed (simp_all add: put_leaf_def del_leaf_def add_leaf_ok remove_leaf_ok)

lemma members_put:
  "registry_ok r \<Longrightarrow> members (put_leaf k e r) = (members r)(k \<mapsto> le_config e)"
  by (auto simp: fun_eq_iff members_def rt.lookup_put)

lemma members_del: "registry_ok r \<Longrightarrow> members (del_leaf k r) = (members r)(k := None)"
  by (auto simp: fun_eq_iff members_def rt.lookup_del)

section \<open>Reachable states\<close>

text \<open>
  The steps the tasks of the program interleave on the registry: table updates, tasks and calls on
  an entry that is or was in the table (an address stays valid after its removal), and changes of
  the outside world alone.
\<close>

inductive reg_step :: "'w env \<Rightarrow> registry \<times> 'w \<Rightarrow> registry \<times> 'w \<Rightarrow> bool" for env :: "'w env" where
  step_add: "reg_step env (r, w) (put_leaf (sc_alias config) (leaf_new_with_pool env w config pool) r, w)"
| step_remove: "reg_step env (r, w) (del_leaf alias r, w)"
| step_init: "reg_step env s (init_leaf env a s)"
| step_warm: "reg_step env s (warm_leaf env keep_info a s)"
| step_refresh: "reg_step env s (snd (cache_tools env a s))"
| step_healthy: "reg_step env s (write_leaf a (mark_healthy now) s)"
| step_unhealthy: "reg_step env s (write_leaf a (mark_unhealthy now) s)"
| step_failure: "reg_step env s (write_leaf a (\<lambda>e. snd (record_failure now e)) s)"
| step_trip: "reg_step env s (write_leaf a (\<lambda>e. e\<lparr>health := Unhealthy\<rparr>) s)"
| step_call_tool: "reg_step env s (snd (with_client a (call_tool env name args) s))"
| step_get_prompt: "reg_step env s (snd (with_client a (get_prompt env name args) s))"
| step_read_resource: "reg_step env s (snd (with_client a (read_resource env uri) s))"
| step_world: "reg_step env (r, w) (r, w')"

inductive_cases reg_stepE: "reg_step env s s'"

lemma reg_step_ok: "reg_step env s s' \<Longrightarrow> registry_ok (fst s) \<Longrightarrow> registry_ok (fst s')"
proof (induction rule: reg_step.induct)
  case (step_add r w config pool)
  then show ?case by (simp add: rt.ok_put)
next
  case (step_remove r w al)
  then show ?case by (simp add: rt.ok_del)
qed (auto intro: touches_ok [OF touches_update] touches_ok [OF touches_init_leaf] touches_ok [OF touches_warm_leaf]
    touches_ok [OF touches_cache_tools] touches_ok [OF touches_with_client] keeps_calls)

lemma from_configs_ok: "registry_ok (from_configs_with_pool env w configs pool)"
  unfolding from_configs_with_pool_def
proof -
  have "registry_ok (fold (\<lambda>config. put_leaf (sc_alias config) (leaf_new_with_pool env w config pool))
      configs (with_pool pool))"
    by (rule rt.ok_fold_put [OF with_pool_ok]) (simp add: list_all_iff)
  then show "registry_ok (fold (\<lambda>config r. snd (add_leaf (sc_alias config)
      (leaf_new_with_pool env w config pool) r)) configs (with_pool pool))"
    by (simp add: put_leaf_def [abs_def])
qed

text \<open>In every state the program can reach from its configuration, through any interleaving of
  additions, removals, health marks, refreshes and calls, an alias leads to the entry configured
  under that alias, its client talks to that entry's URL over its transport, and a leaf of the
  plain transport holds no session.\<close>

lemma registry_invariant:
  assumes "(reg_step env)\<^sup>*\<^sup>* (from_configs_with_pool env w configs pool, w) (r, w')"
    and "leaf_at r alias = Some e"
  shows "sc_alias (le_config e) = alias \<and> lc_alias (le_client e) = alias
    \<and> lc_url (le_client e) = sc_url (le_config e)
    \<and> lc_transport (le_client e) = sc_transport (le_config e)
    \<and> (sc_transport (le_config e) = HttpPost \<longrightarrow> lc_session_id (le_client e) = None)"
proof -
  have "registry_ok (fst s)"
    if "(reg_step env)\<^sup>*\<^sup>* (from_configs_with_pool env w configs pool, w) s" for s
    using that by (induction rule: rtranclp_induct) (auto simp: from_configs_ok intro: reg_step_ok)
  from this [OF assms(1)] assms(2) rt.lookup_key [of r _ e] show ?thesis
    by (auto simp: entry_ok_def)
qed

definition sample_server :: "string \<Rightarrow> server_config" where
  "sample_server name =
     \<lparr>sc_alias = name, sc_url = ''http://'' @ name @ ''/mcp'', sc_auth_token = None,
      sc_auth_token_file = None, sc_transport = HttpPost, sc_tags = [],
      sc_health_check = default_health_check_config, sc_timeout_seconds = None,
      sc_tls = default_tls_config\<rparr>"

lemma sample_server_sel [simp]:
  "sc_alias (sample_server n) = n" "sc_url (sample_server n) = ''http://'' @ n @ ''/mcp''"
  "sc_transport (sample_server n) = HttpPost"
  by (simp_all add: sample_server_def)

lemma from_configs_put:
  "from_configs_with_pool env w configs pool =
     fold (\<lambda>config. put_leaf (sc_alias config) (leaf_new_with_pool env w config pool)) configs (with_pool pool)"
  by (simp add: from_configs_with_pool_def put_leaf_def [abs_def])

lemma with_pool_empty [simp]: "leaf_at (with_pool pool) k = None"
  by (simp add: leaf_at_def get_leaf_def with_pool_def hm_simps)

lemma aliases_leaf_at: "set (aliases r) = {k. leaf_at r k \<noteq> None}"
  by (simp add: aliases_def hm.set_keys leaf_at_def get_leaf_def)

text \<open>At start-up a validated configuration is registered exactly: every configured server has
  a fresh entry under its alias (health unknown, nothing cached), and there are no others.\<close>

lemma startup_registers_all:
  assumes "validate cfg = Inr ()"
  shows "(\<forall>s \<in> set (fc_servers cfg).
            leaf_at (from_configs_with_pool env w (fc_servers cfg) pool) (sc_alias s)
              = Some (leaf_new_with_pool env w s pool))
         \<and> set (aliases (from_configs_with_pool env w (fc_servers cfg) pool)) = sc_alias ` set (fc_servers cfg)"
proof -
  let ?ss = "fc_servers cfg" and ?val = "\<lambda>config. leaf_new_with_pool env w config pool"
  let ?r = "from_configs_with_pool env w ?ss pool"
  have d: "distinct (map sc_alias ?ss)" using validate_Inr [OF assms] by (simp add: servers_ok_def)
  have g: "list_all (\<lambda>x. entry_ok (?val x) \<and> sc_alias (le_config (?val x)) = sc_alias x) ?ss"
    by (simp add: list_all_iff)
  have some: "leaf_at ?r (sc_alias s) = Some (?val s)" if "s \<in> set ?ss" for s
    unfolding from_configs_put by (rule rt.lookup_fold_put_in [OF with_pool_ok g d that])
  have none: "leaf_at ?r k = None" if "k \<notin> sc_alias ` set ?ss" for k
    unfolding from_configs_put using rt.lookup_fold_put_notin [OF with_pool_ok g that] by simp
  have "set (aliases ?r) = sc_alias ` set ?ss"
    unfolding aliases_leaf_at using some none by force
  with some show ?thesis by simp
qed

section \<open>Initialisation and refresh\<close>

text \<open>The part of an entry that only the health marks change.\<close>

definition vitals :: "leaf_entry \<Rightarrow> leaf_health \<times> instant option \<times> u32" where
  "vitals e = (health e, last_health_check e, consecutive_failures e)"

lemma vitals_updates [simp]:
  "vitals (e\<lparr>le_client := c\<rparr>) = vitals e" "vitals (e\<lparr>cached_tools := xs\<rparr>) = vitals e"
  "vitals (e\<lparr>cached_resources := xs\<rparr>) = vitals e" "vitals (e\<lparr>cached_prompts := xs\<rparr>) = vitals e"
  "vitals (e\<lparr>server_info := i\<rparr>) = vitals e" "vitals (mark_tools_refreshed t e) = vitals e"
  "vitals (mark_healthy t e) = (Healthy, Some t, 0)"
  "vitals (mark_unhealthy t e) = (Unhealthy, Some t, consecutive_failures e + 1)"
  by (simp_all add: vitals_def mark_tools_refreshed_def mark_healthy_def mark_unhealthy_def)

lemma vitals_with_client [simp]:
  "vitals (entry (fst (snd (with_client a f s))) b) = vitals (entry (fst s) b)"
  by (simp add: with_client_def split_beta Let_def)

lemma vitals_cache [simp]:
  "vitals (entry (fst (snd (cache_tools env a s))) b) = vitals (entry (fst s) b)"
  "vitals (entry (fst (cache_resources env a s)) b) = vitals (entry (fst s) b)"
  "vitals (entry (fst (cache_prompts env a s)) b) = vitals (entry (fst s) b)"
  using vitals_with_client [of a "list_tools env" s b] vitals_with_client [of a "list_resources env" s b]
    vitals_with_client [of a "list_prompts env" s b]
  by (auto simp: cache_tools_def cache_resources_def cache_prompts_def
      split: prod.split sum.split simp del: vitals_with_client)

text \<open>
  The same evolution, in which moreover no leaf's health changes: this is all a request of a client
  can do.
\<close>

definition steady :: "registry \<Rightarrow> registry \<Rightarrow> bool" where
  "steady r r' \<longleftrightarrow> evolves r r' \<and> (\<forall>b. vitals (entry r' b) = vitals (entry r b))"

lemma steady_refl [simp]: "steady r r"
  by (simp add: steady_def)

lemma steady_trans: "steady r r1 \<Longrightarrow> steady r1 r2 \<Longrightarrow> steady r r2"
  by (auto simp: steady_def intro: evolves_trans)

lemma steady_evolves: "steady r r' \<Longrightarrow> evolves r r'"
  by (simp add: steady_def)

lemma with_client_steady: "keeps f \<Longrightarrow> steady (fst s) (fst (snd (with_client a f s)))"
  by (simp add: steady_def touches_evolves [OF touches_with_client])

lemma cache_tools_steady: "steady (fst s) (fst (snd (cache_tools env a s)))"
  by (simp add: steady_def touches_evolves [OF touches_cache_tools])

text \<open>Weaker: entries may be added, but the health of those there already stays as it is.\<close>

definition keeps_health :: "registry \<Rightarrow> registry \<Rightarrow> bool" where
  "keeps_health r r' \<longleftrightarrow>
     length (leaf_heap r) \<le> length (leaf_heap r')
     \<and> (\<forall>b < length (leaf_heap r). vitals (entry r' b) = vitals (entry r b))"

lemma keeps_health_refl [simp]: "keeps_health r r"
  by (simp add: keeps_health_def)

lemma keeps_health_trans: "keeps_health r r1 \<Longrightarrow> keeps_health r1 r2 \<Longrightarrow> keeps_health r r2"
  by (auto simp: keeps_health_def)

lemma steady_keeps_health: "steady r r' \<Longrightarrow> keeps_health r r'"
  by (simp add: steady_def keeps_health_def evolves_def)

lemma keeps_health_put [simp]: "keeps_health r (put_leaf k e r)"
  by (simp add: keeps_health_def put_leaf_def add_leaf_def entry_def nth_append Let_def)

lemma keeps_health_del [simp]: "keeps_health r (del_leaf k r)"
  by (simp add: keeps_health_def del_leaf_def remove_leaf_def entry_def Let_def)

lemma keeps_health_fold: "(\<And>x r. keeps_health r (f x r)) \<Longrightarrow> keeps_health r (fold f xs r)"
  by (induction xs arbitrary: r) (auto intro: keeps_health_trans)

lemma init_leaf_vitals:
  assumes "a < length (leaf_heap (fst s))"
    and "with_client a (initialize env) s = (res, s1)"
  shows "vitals (entry (fst (init_leaf env a s)) a) =
     (case res of
        Inr v \<Rightarrow> (Healthy, Some (clock env (snd s1)), 0)
      | Inl e \<Rightarrow> (Unhealthy, Some (clock env (snd s1)), consecutive_failures (entry (fst s) a) + 1))"
proof -
  have len: "a < length (leaf_heap (fst s1))"
    using assms touches_with_client [OF keeps_initialize, of a s env] by (simp add: touches_def)
  have "consecutive_failures (entry (fst s1) a) = consecutive_failures (entry (fst s) a)"
    using vitals_with_client [of a "initialize env" s a] assms(2) by (simp add: vitals_def)
  with assms(2) len show ?thesis
    by (auto simp: init_leaf_def Let_def split: sum.split option.split)
qed

lemma init_leaf_decides:
  assumes "a < length (leaf_heap (fst s))"
  shows "fst (vitals (entry (fst (init_leaf env a s)) a)) \<noteq> Unknown"
proof -
  obtain res s1 where "with_client a (initialize env) s = (res, s1)"
    by (cases "with_client a (initialize env) s")
  from init_leaf_vitals [OF assms this] show ?thesis by (simp split: sum.split)
qed

text \<open>Running the tasks of several leaves one after the other, in any order.\<close>

lemma fold_init_other: "b \<notin> set as \<Longrightarrow> entry (fst (fold (init_leaf env) as s)) b = entry (fst s) b"
proof (induction as arbitrary: s)
  case (Cons a as)
  then show ?case using touches_init_leaf [of a s env] by (simp add: touches_def)
qed simp

lemma fold_init_table:
  "leaves (fst (fold (init_leaf env) as s)) = leaves (fst s)"
  "length (leaf_heap (fst (fold (init_leaf env) as s))) = length (leaf_heap (fst s))"
proof (induction as arbitrary: s)
  case (Cons a as)
  { case 1 then show ?case using Cons(1) touches_init_leaf [of a s env] by (simp add: touches_def) }
  { case 2 then show ?case using Cons(2) touches_init_leaf [of a s env] by (simp add: touches_def) }
qed simp_all

lemma fold_init_decides:
  "a \<in> set as \<Longrightarrow> a < length (leaf_heap (fst s))
     \<Longrightarrow> fst (vitals (entry (fst (fold (init_leaf env) as s)) a)) \<noteq> Unknown"
proof (induction as arbitrary: s)
  case (Cons b bs)
  show ?case
  proof (cases "a \<in> set bs")
    case True
    with Cons touches_init_leaf [of b s env] show ?thesis by (simp add: touches_def)
  next
    case False
    with Cons.prems init_leaf_decides [of a s env] show ?thesis by (simp add: fold_init_other)
  qed
qed simp

lemma init_all_evolves: "evolves (fst s) (fst (initialize_all env s))"
proof -
  have "evolves (fst s) (fst (fold (init_leaf env) as s))" for as
  proof (induction as arbitrary: s)
    case (Cons a as)
    from evolves_trans [OF touches_evolves [OF touches_init_leaf] Cons.IH] show ?case by simp
  qed simp
  then show ?thesis by (simp add: initialize_all_def)
qed

text \<open>Initialisation reaches a verdict on every leaf: afterwards the table has the same aliases
  and no leaf is left in the unknown state.\<close>

lemma initialize_all_decides:
  assumes "registry_ok r"
  shows "(case leaf_at (fst (initialize_all env (r, w))) name of
            None \<Rightarrow> leaf_at r name = None
          | Some e \<Rightarrow> leaf_at r name \<noteq> None \<and> health e \<noteq> Unknown)"
proof -
  let ?r' = "fst (initialize_all env (r, w))"
  have tab: "get_leaf name ?r' = get_leaf name r"
    by (simp add: initialize_all_def get_leaf_def fold_init_table)
  have "health (entry ?r' a) \<noteq> Unknown" if "get_leaf name r = Some a" for a
  proof -
    have "a \<in> set (all_leaves r)" "a < length (leaf_heap r)"
      using that assms hm_get_in_set [of "leaves r" name a]
      by (force simp: all_leaves_def get_leaf_def registry_ok_def image_iff)+
    with fold_init_decides [of a "all_leaves r" "(r, w)" env] show ?thesis
      by (simp add: initialize_all_def vitals_def)
  qed
  with tab show ?thesis by (auto simp: leaf_at_def split: option.split)
qed

text \<open>The entry after a fetch of its tools, by what the client answered.\<close>

lemma cache_tools_entry:
  assumes "cache_tools env a (r, w) = (res, (r', w'))" and "a < length (leaf_heap r)"
    and "list_tools env (le_client (entry r a), w) = (answer, (c', w1))"
  shows "w' = w1
    \<and> (case answer of
         Inr tools \<Rightarrow> res = Inr (length tools)
           \<and> entry r' a = (entry r a)\<lparr>le_client := c', cached_tools := tools, last_tool_refresh := Some (clock env w1)\<rparr>
       | Inl err \<Rightarrow> res = Inl err \<and> entry r' a = (entry r a)\<lparr>le_client := c'\<rparr>)"
  using assms
  by (auto simp: cache_tools_def with_client_def mark_tools_refreshed_def write_leaf_def Let_def
      split: sum.splits)

text \<open>The tools a client reports are those in a successful answer of its leaf to \<open>tools/list\<close>.\<close>

lemma list_tools_answer:
  assumes "list_tools env (c, w) = (Inr tools, (c', w'))"
  shows "\<exists>c1 w1 status reply.
     send_once env (rpc_body (lc_next_id c) ''tools/list'' (json_obj [])) (c1, w1) = (Inr (status, reply), (c', w'))
     \<and> status_is_success status \<and> client_identity c1 = client_identity c \<and> tools = list_field ''tools'' reply"
proof -
  from assms obtain reply where
    r: "send_request env (rpc_body (lc_next_id c) ''tools/list'' (json_obj [])) (c\<lparr>lc_next_id := lc_next_id c + 1\<rparr>, w)
      = (Inr reply, (c', w'))" "tools = list_field ''tools'' reply"
    by (auto simp: list_tools_def eff_bind_Inr rpc_call_def next_request_id_def)
  from send_request_Inr [OF r(1)] r(2) show ?thesis by (auto simp: client_identity_def)
qed

text \<open>C28: A refresh by name asks the leaf it names for its tools and changes nothing else.  When the
  leaf's client gets an answer, the cache of the leaf becomes exactly the list under \<open>result.tools\<close> of a
  successful answer of that leaf to this very request (the empty list if there is none), stamped with
  the time of the answer, so that it is not stale until the time to live has passed, and the refresh
  reports its length; when the client fails, the refresh reports the error and cache and stamp are
  what they were; health and settings never change; an unknown name changes nothing at all.\<close>

theorem refresh_tools_spec:
  assumes "registry_ok r" and "refresh_tools env name (r, w) = (res, (r', w'))"
  shows "(case leaf_at r name of
            None \<Rightarrow> res = Inl (''unknown leaf: '' @ name) \<and> r' = r \<and> w' = w
          | Some e \<Rightarrow>
              (case list_tools env (le_client e, w) of
                 (Inr tools, (c', w1)) \<Rightarrow>
                   (\<exists>e'. e' = e\<lparr>le_client := c', cached_tools := tools, last_tool_refresh := Some (clock env w')\<rparr>
                      \<and> res = Inr (length tools) \<and> w' = w1 \<and> leaf_at r' = (leaf_at r)(name \<mapsto> e')
                      \<and> (\<forall>ttl now. tools_stale ttl now e' \<longleftrightarrow> ttl \<le> now - clock env w'))
                   \<and> (\<exists>c1 w0 status reply.
                        send_once env (rpc_body (lc_next_id (le_client e)) ''tools/list'' (json_obj [])) (c1, w0)
                          = (Inr (status, reply), (c', w'))
                        \<and> status_is_success status \<and> client_identity c1 = client_identity (le_client e)
                        \<and> tools = list_field ''tools'' reply)
               | (Inl err, (c', w1)) \<Rightarrow>
                   res = Inl (error_to_string err) \<and> w' = w1
                   \<and> leaf_at r' = (leaf_at r)(name \<mapsto> e\<lparr>le_client := c'\<rparr>)))"
proof (cases "get_leaf name r")
  case None
  with assms show ?thesis by (simp add: refresh_tools_def leaf_at_def)
next
  case (Some a)
  obtain res1 where ct: "cache_tools env a (r, w) = (res1, (r', w'))"
    and res: "res = (case res1 of Inr n \<Rightarrow> Inr n | Inl e \<Rightarrow> Inl (error_to_string e))"
    using assms(2) Some by (auto simp: refresh_tools_def split: prod.splits sum.splits)
  have t: "touches a r r'" using touches_cache_tools [of a "(r, w)" env] ct by simp
  have len: "a < length (leaf_heap r)" using assms(1) Some by (simp add: registry_ok_def)
  have other: "b \<noteq> a" if "get_leaf k r = Some b" "k \<noteq> name" for k b
    using that Some assms(1) by (auto simp: registry_ok_def)
  have "leaf_at r' k = ((leaf_at r)(name \<mapsto> entry r' a)) k" for k
    using t other [of k] Some by (cases "get_leaf k r") (auto simp: leaf_at_def touches_def get_leaf_def)
  then have at: "leaf_at r' = (leaf_at r)(name \<mapsto> entry r' a)" by blast
  have here: "leaf_at r name = Some (entry r a)" using Some by (simp add: leaf_at_def)
  obtain answer c' w1 where ans: "list_tools env (le_client (entry r a), w) = (answer, (c', w1))"
    by (metis surj_pair)
  note entry = cache_tools_entry [OF ct len ans]
  show ?thesis
  proof (cases answer)
    case (Inr tools)
    with list_tools_answer [of env "le_client (entry r a)" w tools c' w1] ans entry at here show ?thesis
      by (simp add: res tools_stale_def elapsed_def)
  qed (use ans entry at here res in simp)
qed

text \<open>A leaf that offers one tool.\<close>

definition tools_env :: "nat env" where
  "tools_env =
     const_env \<lparr>hs_status = 200, hs_header = (\<lambda>h. None), hs_body = Inr ''r''\<rparr>
       (\<lambda>s. Inr (json_obj [(''result'', json_obj [(''tools'', JArray [JString ''t''])])]))"

theorem refresh_tools_spec_witness:
  "let r = from_configs_with_pool tools_env 0 [sample_server ''a'', sample_server ''b''] default_connection_pool_config;
       r' = fst (snd (refresh_tools tools_env ''a'' (r, 0)))
   in registry_ok r \<and> map_option cached_tools (leaf_at r ''a'') = Some []
      \<and> map_option cached_tools (leaf_at r' ''a'') = Some [JString ''t''] \<and> leaf_at r' ''b'' = leaf_at r ''b''"
proof -
  let ?r = "from_configs_with_pool tools_env 0 [sample_server ''a'', sample_server ''b''] default_connection_pool_config"
  let ?e = "leaf_new_with_pool tools_env 0 (sample_server ''a'') default_connection_pool_config"
  obtain res r' w' where run: "refresh_tools tools_env ''a'' (?r, 0) = (res, (r', w'))"
    by (cases "refresh_tools tools_env ''a'' (?r, 0)") auto
  have at: "leaf_at ?r ''a'' = Some ?e"
    by (simp add: from_configs_put rt.lookup_put with_pool_ok rt.ok_put)
  obtain c' where ans: "list_tools tools_env (le_client ?e, 0) = (Inr [JString ''t''], (c', 1))"
    by (simp add: list_tools_def eff_bind_def eff_ok_def rpc_call_def next_request_id_def send_request_def send_once_def
        needs_retry_def status_is_success_def json_simps list_field_def leaf_new_with_pool_def leaf_client_new_def
        tools_env_def const_env_def reply_value_def sample_server_def Let_def)
  have "cached_tools ?e = []" by (simp add: leaf_new_with_pool_def)
  with refresh_tools_spec [OF from_configs_ok run] at ans show ?thesis
    by (auto simp: Let_def run from_configs_ok)
qed

end
