(* ===== verification/Fed_Aggregator.thy ===== *)
theory Fed_Aggregator
  imports Fed_Registry
begin

text \<open>
  The aggregator (\<open>src/src/aggregator.rs\<close>): the names under which the federation publishes what
  its leaves offer, the aggregated listings, and the tools of the federation itself.
\<close>

definition NAMESPACE_SEPARATOR :: string where
  "NAMESPACE_SEPARATOR = ''__''"

section \<open>Names\<close>

definition namespace_tool :: "string \<Rightarrow> json \<Rightarrow> json option" where
  "namespace_tool alias tool =
     (case json_get_str tool ''name'' of
        None \<Rightarrow> None
      | Some name \<Rightarrow>
          (let description = json_str_or_empty tool ''description'';
               namespaced = json_set ''name'' (JString (alias @ NAMESPACE_SEPARATOR @ name)) tool
           in Some (json_set ''description'' (JString (''['' @ alias @ ''] '' @ description)) namespaced)))"

definition namespace_resource :: "string \<Rightarrow> json \<Rightarrow> json option" where
  "namespace_resource alias resource =
     (case json_get_str resource ''uri'' of
        None \<Rightarrow> None
      | Some uri \<Rightarrow>
          (let name = json_str_or_empty resource ''name'';
               namespaced = json_set ''uri'' (JString (alias @ NAMESPACE_SEPARATOR @ uri)) resource
           in Some (json_set ''name'' (JString (''['' @ alias @ ''] '' @ name)) namespaced)))"

definition namespace_prompt :: "string \<Rightarrow> json \<Rightarrow> json option" where
  "namespace_prompt alias prompt =
     (case json_get_str prompt ''name'' of
        None \<Rightarrow> None
      | Some name \<Rightarrow>
          (let description = json_str_or_empty prompt ''description'';
               namespaced = json_set ''name'' (JString (alias @ NAMESPACE_SEPARATOR @ name)) prompt
           in Some (json_set ''description'' (JString (''['' @ alias @ ''] '' @ description)) namespaced)))"

definition parse_namespaced_name :: "string \<Rightarrow> (string \<times> string) option" where
  "parse_namespaced_name namespaced = split_once NAMESPACE_SEPARATOR namespaced"

section \<open>The federation's own tools\<close>

definition string_schema :: "string \<Rightarrow> json" where
  "string_schema description =
     json_obj [(''type'', JString ''string''), (''description'', JString description)]"

definition native_tool :: "string \<Rightarrow> string \<Rightarrow> (string \<times> json) list \<Rightarrow> string list \<Rightarrow> json" where
  "native_tool name description properties required =
     json_obj [(''name'', JString (''federation'' @ NAMESPACE_SEPARATOR @ name)),
               (''description'', JString (''[federation] '' @ description)),
               (''inputSchema'', json_obj [(''type'', JString ''object''),
                                           (''properties'', json_obj properties),
                                           (''required'', JArray (map JString required))])]"

definition native_tools :: "json list" where
  "native_tools =
     [native_tool ''list_servers'' ''List all configured leaf MCP servers and their health status'' [] [],
      native_tool ''server_info'' ''Get detailed info about a specific leaf MCP server''
        [(''alias'', string_schema ''The server alias to get info for'')] [''alias''],
      native_tool ''refresh'' ''Force-refresh tool lists from all or a specific leaf server''
        [(''alias'', string_schema ''Optional: refresh only this server (omit for all)'')] [],
      native_tool ''search_tools''
        ''Search for tools across all leaf servers by name or description keyword''
        [(''query'', string_schema ''Search term to match against tool names and descriptions''),
         (''alias'', string_schema ''Optional: restrict search to a specific leaf server'')] [''query''],
      native_tool ''topology''
        (''Return the federation topology '' @ [CHR 0xE2, CHR 0x80, CHR 0x94]
         @ '' this node plus each leaf, with is_federation flags for nested mcp-federation instances'')
        [] []]"

section \<open>Listings\<close>

text \<open>What one leaf contributes to a listing.\<close>

definition leaf_items ::
  "(string \<Rightarrow> json \<Rightarrow> json option) \<Rightarrow> (leaf_entry \<Rightarrow> json list) \<Rightarrow> leaf_entry \<Rightarrow> json list" where
  "leaf_items ns cache e = List.map_filter (ns (sc_alias (le_config e))) (cache e)"

text \<open>
  The listing of tools and the leaves for which it spawns a background refresh.  \<open>now\<close> is the clock
  as it is read for each leaf; a spawned task runs \<open>cache_tools\<close> on its leaf.
\<close>

definition aggregated_tools :: "duration \<Rightarrow> (nat \<Rightarrow> instant) \<Rightarrow> registry \<Rightarrow> json list \<times> nat list" where
  "aggregated_tools tool_cache_ttl now r =
     (let leaves = healthy_leaves r;
          spawned = (if tool_cache_ttl \<noteq> 0
                     then filter (\<lambda>a. tools_stale tool_cache_ttl (now a) (entry r a)) leaves else [])
      in (native_tools @ concat (map (\<lambda>a. leaf_items namespace_tool cached_tools (entry r a)) leaves),
          spawned))"

definition aggregated_resources :: "registry \<Rightarrow> json list" where
  "aggregated_resources r =
     concat (map (\<lambda>a. leaf_items namespace_resource cached_resources (entry r a)) (healthy_leaves r))"

definition aggregated_prompts :: "registry \<Rightarrow> json list" where
  "aggregated_prompts r =
     concat (map (\<lambda>a. leaf_items namespace_prompt cached_prompts (entry r a)) (healthy_leaves r))"

section \<open>Facts about names\<close>

text \<open>An alias after which the separator is found again where it was written.\<close>

definition alias_routable :: "string \<Rightarrow> bool" where
  "alias_routable a \<longleftrightarrow> \<not> str_contains ''__'' (a @ ''_'')"

text \<open>C29: A published name splits back into its alias and the leaf's own name exactly when the alias
  followed by an underscore does not contain the separator; the leaf's own name may contain it
  freely.\<close>

theorem namespaced_roundtrip:
  "parse_namespaced_name (a @ NAMESPACE_SEPARATOR @ n) = Some (a, n) \<longleftrightarrow>
     \<not> str_contains ''__'' (a @ ''_'')"
  using split_once_append_iff [of "''__''" a n]
  by (simp add: parse_namespaced_name_def NAMESPACE_SEPARATOR_def str_simps)

lemma parse_routable:
  "alias_routable a \<Longrightarrow> parse_namespaced_name (a @ NAMESPACE_SEPARATOR @ n) = Some (a, n)"
  using split_once_append_iff [of "''__''" a n]
  by (simp add: parse_namespaced_name_def NAMESPACE_SEPARATOR_def str_simps alias_routable_def)

text \<open>An accepted alias is routable unless it ends in an underscore.\<close>

lemma alias_ok_routable: "alias_ok a \<Longrightarrow> alias_routable a \<longleftrightarrow> last a \<noteq> CHR ''_''"
proof -
  assume ok: "alias_ok a"
  then obtain b c where a: "a = b @ [c]" by (cases a rule: rev_cases) (auto simp: alias_ok_def)
  have "sublist ''__'' (b @ [c] @ ''_'') \<longleftrightarrow> c = CHR ''_''" if "\<not> sublist ''__'' (b @ [c])"
  proof
    assume "sublist ''__'' (b @ [c] @ ''_'')"
    then obtain u v where uv: "b @ [c, CHR ''_''] = u @ ''__'' @ v" by (auto simp: sublist_def)
    show "c = CHR ''_''"
    proof (cases v rule: rev_cases)
      case Nil
      with uv have "b @ [c, CHR ''_''] = u @ ''__''" by simp
      then show ?thesis by simp
    next
      case (snoc v' x)
      with uv have "(b @ [c]) @ ''_'' = (u @ ''__'' @ v') @ [x]" by simp
      then have "b @ [c] = u @ ''__'' @ v'" by (metis append1_eq_conv)
      with that show ?thesis by (metis sublist_appendI)
    qed
  next
    assume "c = CHR ''_''"
    then have "b @ [c] @ ''_'' = b @ ''__'' @ []" by simp
    then show "sublist ''__'' (b @ [c] @ ''_'')" by (metis sublist_appendI)
  qed
  with ok show ?thesis by (simp add: alias_routable_def str_simps a alias_ok_def)
qed

text \<open>
  What the three kinds of items share: an item with an identifier is published under the alias and
  the separator, one without is left out, and members other than the identifier and the label stay.
\<close>

locale namespaced_items =
  fixes ns :: "string \<Rightarrow> json \<Rightarrow> json option"
    and ident :: string
    and label :: string
  assumes ns_None: "ns a v = None \<longleftrightarrow> json_get_str v ident = None"
    and ns_ident: "ns a v = Some v' \<Longrightarrow> json_get_str v ident = Some n
      \<Longrightarrow> json_get_str v' ident = Some (a @ NAMESPACE_SEPARATOR @ n)"
    and ns_other: "ns a v = Some v' \<Longrightarrow> k \<noteq> ident \<Longrightarrow> k \<noteq> label \<Longrightarrow> json_get v' k = json_get v k"
begin

lemma published_form:
  assumes "ns a v = Some v'" "json_get_str v' ident = Some m"
  shows "\<exists>n. m = a @ NAMESPACE_SEPARATOR @ n"
proof -
  from assms(1) ns_None [of a v] obtain n where "json_get_str v ident = Some n" by auto
  with assms show ?thesis by (auto simp: ns_ident)
qed

lemma published_resolves:
  assumes "ns a v = Some v'" "alias_routable a"
  shows "\<exists>n. json_get_str v ident = Some n \<and> json_get_str v' ident = Some (a @ NAMESPACE_SEPARATOR @ n)
           \<and> parse_namespaced_name (a @ NAMESPACE_SEPARATOR @ n) = Some (a, n)"
proof -
  from assms(1) ns_None [of a v] obtain n where "json_get_str v ident = Some n" by auto
  with assms show ?thesis by (auto simp: ns_ident parse_routable)
qed

lemma published_distinct:
  assumes "ns a1 v1 = Some w1" "ns a2 v2 = Some w2" "alias_routable a1" "alias_routable a2"
    and "json_get_str w1 ident = json_get_str w2 ident"
  shows "a1 = a2 \<and> json_get_str v1 ident = json_get_str v2 ident"
  using published_resolves [OF assms(1,3)] published_resolves [OF assms(2,4)] assms(5)
  by (metis option.inject prod.inject)

end

lemma json_get_str_set:
  "json_is_object v \<Longrightarrow> json_get_str (json_set k x v) k' = (if k' = k then json_as_str x else json_get_str v k')"
  by (simp add: json_get_str_def json_get_set)

interpretation nt: namespaced_items namespace_tool "''name''" "''description''"
proof unfold_locales
  fix a v v' n
  assume "namespace_tool a v = Some v'" "json_get_str v ''name'' = Some n"
  then show "json_get_str v' ''name'' = Some (a @ NAMESPACE_SEPARATOR @ n)"
    by (auto simp: namespace_tool_def Let_def json_get_str_set json_simps dest!: json_get_str_object)
next
  fix a v v' and k :: string
  assume "namespace_tool a v = Some v'" "k \<noteq> ''name''" "k \<noteq> ''description''"
  then show "json_get v' k = json_get v k"
    by (auto simp: namespace_tool_def Let_def json_simps dest!: json_get_str_object split: option.splits)
qed (simp add: namespace_tool_def Let_def split: option.split)

interpretation nr: namespaced_items namespace_resource "''uri''" "''name''"
proof unfold_locales
  fix a v v' n
  assume "namespace_resource a v = Some v'" "json_get_str v ''uri'' = Some n"
  then show "json_get_str v' ''uri'' = Some (a @ NAMESPACE_SEPARATOR @ n)"
    by (auto simp: namespace_resource_def Let_def json_get_str_set json_simps dest!: json_get_str_object)
next
  fix a v v' and k :: string
  assume "namespace_resource a v = Some v'" "k \<noteq> ''uri''" "k \<noteq> ''name''"
  then show "json_get v' k = json_get v k"
    by (auto simp: namespace_resource_def Let_def json_simps dest!: json_get_str_object split: option.splits)
qed (simp add: namespace_resource_def Let_def split: option.split)

interpretation np: namespaced_items namespace_prompt "''name''" "''description''"
proof unfold_locales
  fix a v v' n
  assume "namespace_prompt a v = Some v'" "json_get_str v ''name'' = Some n"
  then show "json_get_str v' ''name'' = Some (a @ NAMESPACE_SEPARATOR @ n)"
    by (auto simp: namespace_prompt_def Let_def json_get_str_set json_simps dest!: json_get_str_object)
next
  fix a v v' and k :: string
  assume "namespace_prompt a v = Some v'" "k \<noteq> ''name''" "k \<noteq> ''description''"
  then show "json_get v' k = json_get v k"
    by (auto simp: namespace_prompt_def Let_def json_simps dest!: json_get_str_object split: option.splits)
qed (simp add: namespace_prompt_def Let_def split: option.split)

section \<open>Facts about listings\<close>

lemma healthy_leaves_iff:
  assumes "registry_ok r"
  shows "a \<in> set (healthy_leaves r) \<longleftrightarrow> (\<exists>k. get_leaf k r = Some a \<and> is_healthy (entry r a))"
  using assms hm_entry_iff [of "leaves r"]
  by (force simp: healthy_leaves_def all_leaves_def registry_ok_def get_leaf_def image_iff)

lemma leaf_items_mem:
  "x \<in> set (leaf_items ns cache e) \<longleftrightarrow> (\<exists>v \<in> set (cache e). ns (sc_alias (le_config e)) v = Some x)"
  by (force simp: leaf_items_def map_filter_def image_iff)

text \<open>The leaf items of a listing, by alias.\<close>

lemma listing_iff:
  assumes "registry_ok r"
  shows "x \<in> set (concat (map (\<lambda>a. leaf_items ns cache (entry r a)) (healthy_leaves r))) \<longleftrightarrow>
     (\<exists>k e v. leaf_at r k = Some e \<and> is_healthy e \<and> v \<in> set (cache e) \<and> ns k v = Some x)"
proof -
  have key: "sc_alias (le_config (entry r a)) = k" if "get_leaf k r = Some a" for k a
    using assms that by (simp add: registry_ok_def)
  have "x \<in> set (concat (map (\<lambda>a. leaf_items ns cache (entry r a)) (healthy_leaves r))) \<longleftrightarrow>
      (\<exists>a \<in> set (healthy_leaves r). \<exists>v \<in> set (cache (entry r a)). ns (sc_alias (le_config (entry r a))) v = Some x)"
    by (simp add: leaf_items_mem)
  also have "\<dots> \<longleftrightarrow> (\<exists>k a v. get_leaf k r = Some a \<and> is_healthy (entry r a)
      \<and> v \<in> set (cache (entry r a)) \<and> ns k v = Some x)"
    unfolding Bex_def healthy_leaves_iff [OF assms] using key by metis
  finally show ?thesis by (simp add: leaf_at_def) blast
qed

lemma namespace_tool_name:
  "namespace_tool a v = Some t \<Longrightarrow> \<exists>n. json_get_str v ''name'' = Some n
     \<and> json_get_str t ''name'' = Some (a @ NAMESPACE_SEPARATOR @ n)"
  using nt.ns_None [of a v] nt.ns_ident [of a v t] by (cases "json_get_str v ''name''") auto

text \<open>The listing of tools is exact: the names in it are the federation's own tools and, for
  every healthy leaf, each named tool it has cached, under the leaf's alias; nothing of an unhealthy
  or unregistered leaf appears.\<close>

lemma listed_tool_names:
  assumes "registry_ok r"
  shows "{nm. \<exists>t \<in> set (fst (aggregated_tools ttl now r)). json_get_str t ''name'' = Some nm} =
     {nm. \<exists>t \<in> set native_tools. json_get_str t ''name'' = Some nm}
     \<union> {nm. \<exists>a e v n. leaf_at r a = Some e \<and> is_healthy e \<and> v \<in> set (cached_tools e)
           \<and> json_get_str v ''name'' = Some n \<and> nm = a @ NAMESPACE_SEPARATOR @ n}"
    (is "?listed = ?native \<union> ?leaf")
proof -
  let ?items = "concat (map (\<lambda>a. leaf_items namespace_tool cached_tools (entry r a)) (healthy_leaves r))"
  have mem: "t \<in> set ?items \<longleftrightarrow> (\<exists>k e v. leaf_at r k = Some e \<and> is_healthy e
      \<and> v \<in> set (cached_tools e) \<and> namespace_tool k v = Some t)" for t
    using listing_iff [OF assms] .
  have "?listed = ?native \<union> {nm. \<exists>t \<in> set ?items. json_get_str t ''name'' = Some nm}"
    by (auto simp: aggregated_tools_def Let_def)
  moreover have "{nm. \<exists>t \<in> set ?items. json_get_str t ''name'' = Some nm} = ?leaf"
  proof (intro equalityI subsetI; clarify)
    fix nm t assume "t \<in> set ?items" and nm: "json_get_str t ''name'' = Some nm"
    then obtain k e v where kev: "leaf_at r k = Some e" "is_healthy e" "v \<in> set (cached_tools e)"
      "namespace_tool k v = Some t" using mem [of t] by blast
    with namespace_tool_name [OF kev(4)] nm show "\<exists>a e v n. leaf_at r a = Some e \<and> is_healthy e
        \<and> v \<in> set (cached_tools e) \<and> json_get_str v ''name'' = Some n \<and> nm = a @ NAMESPACE_SEPARATOR @ n"
      by auto
  next
    fix a e v n
    assume ae: "leaf_at r a = Some e" "is_healthy e" "v \<in> set (cached_tools e)"
      and n: "json_get_str v ''name'' = Some n"
    then obtain t where t: "namespace_tool a v = Some t" using nt.ns_None [of a v] by auto
    with ae have "t \<in> set ?items" unfolding mem by blast
    with nt.ns_ident [OF t n] show "\<exists>t \<in> set ?items. json_get_str t ''name'' = Some (a @ NAMESPACE_SEPARATOR @ n)"
      by blast
  qed
  ultimately show ?thesis by simp
qed

text \<open>A registry with one leaf, for the witnesses.\<close>

definition sample_tool :: json where
  "sample_tool = json_obj [(''name'', JString ''pods''), (''description'', JString ''List pods'')]"

definition sample_resource :: json where
  "sample_resource = json_obj [(''uri'', JString ''k8s://pods'')]"

definition sample_leaf :: leaf_entry where
  "sample_leaf =
     (leaf_new_with_pool ok_env 0 (sample_server ''k8s'') default_connection_pool_config)
       \<lparr>cached_tools := [sample_tool], cached_resources := [sample_resource]\<rparr>"

definition sample_registry :: registry where
  "sample_registry = put_leaf ''k8s'' sample_leaf (with_pool default_connection_pool_config)"

lemma sample_leaf_facts [simp]:
  "cached_tools sample_leaf = [sample_tool]" "cached_resources sample_leaf = [sample_resource]"
  "is_healthy sample_leaf" "entry_ok sample_leaf" "le_config sample_leaf = sample_server ''k8s''"
  using leaf_new_ok(1) [of ok_env 0 "sample_server ''k8s''" default_connection_pool_config]
  by (simp_all add: sample_leaf_def is_healthy_def entry_ok_def leaf_new_with_pool_def)

lemma sample_registry_ok [simp]: "registry_ok sample_registry"
  by (simp add: sample_registry_def rt.ok_put with_pool_ok)

lemma sample_registry_at [simp]: "leaf_at sample_registry k = (if k = ''k8s'' then Some sample_leaf else None)"
  by (simp add: sample_registry_def rt.lookup_put with_pool_ok)

lemma sample_tool_name [simp]: "json_get_str sample_tool ''name'' = Some ''pods''"
  by (simp add: sample_tool_def json_get_str_Some json_simps)

lemma sample_resource_uri [simp]: "json_get_str sample_resource ''uri'' = Some ''k8s://pods''"
  by (simp add: sample_resource_def json_get_str_Some json_simps)

text \<open>Published names never collide: when every registered alias is routable, two entries of
  the resource listing with the same URI come from the same leaf and carry the same URI there.\<close>

lemma published_names_unique:
  assumes "registry_ok r" and "\<forall>k. leaf_at r k \<noteq> None \<longrightarrow> alias_routable k"
    and "x1 \<in> set (aggregated_resources r)" and "x2 \<in> set (aggregated_resources r)"
    and "json_get_str x1 ''uri'' = json_get_str x2 ''uri''"
  shows "\<exists>a e v1 v2. leaf_at r a = Some e \<and> is_healthy e
     \<and> v1 \<in> set (cached_resources e) \<and> v2 \<in> set (cached_resources e)
     \<and> namespace_resource a v1 = Some x1 \<and> namespace_resource a v2 = Some x2
     \<and> json_get_str v1 ''uri'' = json_get_str v2 ''uri''"
proof -
  from assms(3,4) obtain a1 e1 v1 a2 e2 v2 where
    1: "leaf_at r a1 = Some e1" "is_healthy e1" "v1 \<in> set (cached_resources e1)"
       "namespace_resource a1 v1 = Some x1" and
    2: "leaf_at r a2 = Some e2" "is_healthy e2" "v2 \<in> set (cached_resources e2)"
       "namespace_resource a2 v2 = Some x2"
    unfolding aggregated_resources_def listing_iff [OF assms(1)] by blast
  have "alias_routable a1" "alias_routable a2" using assms(2) 1(1) 2(1) by auto
  from nr.published_distinct [OF 1(4) 2(4) this assms(5)]
  have "a1 = a2" "json_get_str v1 ''uri'' = json_get_str v2 ''uri''" by simp_all
  with 1 2 show ?thesis by auto
qed

end
