(* ===== verification/Fed_Router.thy ===== *)
theory Fed_Router
  imports Fed_Aggregator
begin

text \<open>
  The router (\<open>src/src/router.rs\<close>): which leaf a namespaced call goes to, and the tools the
  federation answers itself.  \<open>to_lower\<close> is the Unicode lower-casing of the standard library, whose
  tables are a parameter.
\<close>

section \<open>The federation's own tools\<close>

definition health_str :: "leaf_health \<Rightarrow> string" where
  "health_str h =
     (case h of Unknown \<Rightarrow> ''unknown'' | Healthy \<Rightarrow> ''healthy'' | Unhealthy \<Rightarrow> ''unhealthy'')"

text \<open>The derived \<open>Debug\<close> texts.\<close>

definition health_debug :: "leaf_health \<Rightarrow> string" where
  "health_debug h =
     (case h of Unknown \<Rightarrow> ''Unknown'' | Healthy \<Rightarrow> ''Healthy'' | Unhealthy \<Rightarrow> ''Unhealthy'')"

definition transport_debug :: "transport_type \<Rightarrow> string" where
  "transport_debug t = (case t of HttpPost \<Rightarrow> ''HttpPost'' | StreamableHttp \<Rightarrow> ''StreamableHttp'')"

definition text_content :: "string \<Rightarrow> json" where
  "text_content t =
     json_obj [(''content'', JArray [json_obj [(''type'', JString ''text''), (''text'', JString t)]])]"

text \<open>The fields \<open>list_servers\<close> and \<open>topology\<close> both give of a leaf.\<close>

definition server_fields :: "leaf_entry \<Rightarrow> (string \<times> json) list" where
  "server_fields e =
     [(''alias'', JString (sc_alias (le_config e))),
      (''url'', JString (sc_url (le_config e))),
      (''transport'', JString (transport_debug (sc_transport (le_config e)))),
      (''tags'', JArray (map JString (sc_tags (le_config e)))),
      (''health'', JString (health_str (health e))),
      (''tool_count'', json_nat (length (cached_tools e))),
      (''is_federation'', JBool (is_federation e))]"

definition topology :: "leaf_entry list \<Rightarrow> json" where
  "topology es =
     json_obj
       [(''node'', json_obj [(''name'', JString ''mcp-federation''), (''version'', JString PKG_VERSION),
                             (''leaf_count'', json_nat (length es))]),
        (''leaves'', JArray (map (\<lambda>e. json_obj (server_fields e
            @ [(''server_info'', case server_info e of None \<Rightarrow> JNull | Some i \<Rightarrow> i)])) es))]"

definition tool_names :: "leaf_entry \<Rightarrow> string list" where
  "tool_names e = List.map_filter (\<lambda>t. json_get_str t ''name'') (cached_tools e)"

definition server_info_json :: "leaf_entry \<Rightarrow> json" where
  "server_info_json e =
     json_obj
       [(''alias'', JString (sc_alias (le_config e))),
        (''url'', JString (sc_url (le_config e))),
        (''transport'', JString (transport_debug (sc_transport (le_config e)))),
        (''tags'', JArray (map JString (sc_tags (le_config e)))),
        (''health'', JString (health_debug (health e))),
        (''consecutive_failures'', json_nat (unat (consecutive_failures e))),
        (''tool_count'', json_nat (length (tool_names e))),
        (''tools'', JArray (map JString (tool_names e)))]"

definition refresh_line :: "string \<times> (string + nat) \<Rightarrow> string" where
  "refresh_line p =
     (case p of
        (alias, Inr count) \<Rightarrow> alias @ '': refreshed ('' @ show_nat count @ '' tools)''
      | (alias, Inl e) \<Rightarrow> alias @ '': error ('' @ e @ '')'')"

text \<open>The matches of \<open>search_tools\<close> in one leaf.\<close>

definition search_leaf :: "(string \<Rightarrow> string) \<Rightarrow> string \<Rightarrow> leaf_entry \<Rightarrow> json list" where
  "search_leaf to_lower query_lower e =
     List.map_filter
       (\<lambda>tool.
          let name = json_str_or_empty tool ''name'';
              description = json_str_or_empty tool ''description'';
              alias = sc_alias (le_config e)
          in if str_contains query_lower (to_lower name) \<or> str_contains query_lower (to_lower description)
             then Some (json_obj [(''alias'', JString alias),
                                  (''name'', JString (alias @ NAMESPACE_SEPARATOR @ name)),
                                  (''tool_name'', JString name),
                                  (''description'', JString description)])
             else None)
       (cached_tools e)"

text \<open>The arms of \<open>handle_native_tool\<close>, one for each of the federation's own tools.\<close>

definition native_list_servers :: "'w env \<Rightarrow> (registry \<times> 'w, json) eff" where
  "native_list_servers env s =
     (let es = map (entry (fst s)) (all_leaves (fst s))
      in (Inr (text_content (to_string_pretty env (JArray (map (\<lambda>e. json_obj (server_fields e)) es)))), s))"

definition native_topology :: "'w env \<Rightarrow> (registry \<times> 'w, json) eff" where
  "native_topology env s =
     (Inr (text_content (to_string_pretty env (topology (map (entry (fst s)) (all_leaves (fst s)))))), s)"

definition native_server_info :: "'w env \<Rightarrow> json \<Rightarrow> (registry \<times> 'w, json) eff" where
  "native_server_info env arguments s =
     (case json_get_str arguments ''alias'' of
        None \<Rightarrow> (Inl (LeafError ''federation'' ''missing required argument: alias''), s)
      | Some alias \<Rightarrow>
          (case get_leaf alias (fst s) of
             None \<Rightarrow> (Inl (UnknownLeaf alias), s)
           | Some a \<Rightarrow> (Inr (text_content (to_string_pretty env (server_info_json (entry (fst s) a)))), s)))"

definition native_refresh :: "'w env \<Rightarrow> json \<Rightarrow> (registry \<times> 'w, json) eff" where
  "native_refresh env arguments s =
     (let (results, s') =
            (case json_get_str arguments ''alias'' of
               Some alias \<Rightarrow> (let (result, s') = refresh_tools env alias s in ([(alias, result)], s'))
             | None \<Rightarrow> refresh_all_tools env s)
      in (Inr (text_content (str_join [LF] (map refresh_line results))), s'))"

definition native_search_tools :: "'w env \<Rightarrow> (string \<Rightarrow> string) \<Rightarrow> json \<Rightarrow> (registry \<times> 'w, json) eff" where
  "native_search_tools env to_lower arguments s =
     (case json_get_str arguments ''query'' of
        None \<Rightarrow> (Inl (LeafError ''federation'' ''missing required argument: query''), s)
      | Some query \<Rightarrow>
          (let query_lower = to_lower query;
               found = (\<lambda>es. Inr (text_content (to_string_pretty env
                          (JArray (concat (map (search_leaf to_lower query_lower) es))))))
           in case json_get_str arguments ''alias'' of
                Some alias \<Rightarrow>
                  (case get_leaf alias (fst s) of
                     None \<Rightarrow> (Inl (UnknownLeaf alias), s)
                   | Some a \<Rightarrow> (found [entry (fst s) a], s))
              | None \<Rightarrow> (found (map (entry (fst s)) (all_leaves (fst s))), s)))"

definition handle_native_tool ::
  "'w env \<Rightarrow> (string \<Rightarrow> string) \<Rightarrow> string \<Rightarrow> json \<Rightarrow> (registry \<times> 'w, json) eff" where
  "handle_native_tool env to_lower tool_name arguments s =
     (if tool_name = ''list_servers'' then native_list_servers env s
      else if tool_name = ''topology'' then native_topology env s
      else if tool_name = ''server_info'' then native_server_info env arguments s
      else if tool_name = ''refresh'' then native_refresh env arguments s
      else if tool_name = ''search_tools'' then native_search_tools env to_lower arguments s
      else (Inl (ToolNotFound (''federation__'' @ tool_name)), s))"

section \<open>Routing\<close>

definition route_tool_call ::
  "'w env \<Rightarrow> (string \<Rightarrow> string) \<Rightarrow> string \<Rightarrow> json \<Rightarrow> (registry \<times> 'w, json) eff" where
  "route_tool_call env to_lower namespaced_tool arguments s =
     (case parse_namespaced_name namespaced_tool of
        None \<Rightarrow>
          (Inl (InvalidToolName (''tool name must be in format '' @ [CHR 0x27] @ ''alias''
             @ NAMESPACE_SEPARATOR @ ''tool_name'' @ [CHR 0x27] @ '', got: '' @ namespaced_tool)), s)
      | Some (alias, tool_name) \<Rightarrow>
          if alias = ''federation'' then handle_native_tool env to_lower tool_name arguments s
          else (case get_leaf alias (fst s) of
                  None \<Rightarrow> (Inl (UnknownLeaf alias), s)
                | Some a \<Rightarrow>
                    if \<not> is_healthy (entry (fst s) a) then (Inl (LeafUnhealthy alias), s)
                    else with_client a (call_tool env tool_name arguments) s))"

definition route_resource_read :: "'w env \<Rightarrow> string \<Rightarrow> (registry \<times> 'w, json) eff" where
  "route_resource_read env namespaced_uri s =
     (case parse_namespaced_name namespaced_uri of
        None \<Rightarrow>
          (Inl (InvalidToolName (''resource URI must be prefixed with alias, got: '' @ namespaced_uri)), s)
      | Some (alias, uri) \<Rightarrow>
          (case get_leaf alias (fst s) of
             None \<Rightarrow> (Inl (UnknownLeaf alias), s)
           | Some a \<Rightarrow>
               if \<not> is_healthy (entry (fst s) a) then (Inl (LeafUnhealthy alias), s)
               else with_client a (read_resource env uri) s))"

definition route_prompt_get :: "'w env \<Rightarrow> string \<Rightarrow> json \<Rightarrow> (registry \<times> 'w, json) eff" where
  "route_prompt_get env namespaced_name arguments s =
     (case parse_namespaced_name namespaced_name of
        None \<Rightarrow>
          (Inl (InvalidToolName (''prompt name must be prefixed with alias, got: '' @ namespaced_name)), s)
      | Some (alias, prompt_name) \<Rightarrow>
          (case get_leaf alias (fst s) of
             None \<Rightarrow> (Inl (UnknownLeaf alias), s)
           | Some a \<Rightarrow>
               if \<not> is_healthy (entry (fst s) a) then (Inl (LeafUnhealthy alias), s)
               else with_client a (get_prompt env prompt_name arguments) s))"

section \<open>The contract of a route\<close>

text \<open>
  The three routes share one contract: a name without a separator, an unknown leaf and an unhealthy
  leaf are refused without any effect; otherwise the call runs on the client of the leaf the name
  starts with, with the rest of the name.  \<open>native\<close> marks the aliases a route answers itself.
\<close>

locale leaf_route =
  fixes route :: "string \<Rightarrow> 'p \<Rightarrow> (registry \<times> 'w, json) eff"
    and call :: "string \<Rightarrow> 'p \<Rightarrow> (leaf_client \<times> 'w, json) eff"
    and native :: "string \<Rightarrow> bool"
  assumes no_separator: "parse_namespaced_name n = None \<Longrightarrow> \<exists>m. route n p s = (Inl (InvalidToolName m), s)"
    and unknown: "parse_namespaced_name n = Some (a, x) \<Longrightarrow> \<not> native a \<Longrightarrow> get_leaf a (fst s) = None
      \<Longrightarrow> route n p s = (Inl (UnknownLeaf a), s)"
    and unhealthy: "parse_namespaced_name n = Some (a, x) \<Longrightarrow> \<not> native a \<Longrightarrow> get_leaf a (fst s) = Some i
      \<Longrightarrow> \<not> is_healthy (entry (fst s) i) \<Longrightarrow> route n p s = (Inl (LeafUnhealthy a), s)"
    and served: "parse_namespaced_name n = Some (a, x) \<Longrightarrow> \<not> native a \<Longrightarrow> get_leaf a (fst s) = Some i
      \<Longrightarrow> is_healthy (entry (fst s) i) \<Longrightarrow> route n p s = with_client i (call x p) s"
    and call_keeps: "keeps (call x p)"
begin

text \<open>A route either leaves the state alone or touches the leaf it names.\<close>

lemma route_touches:
  assumes "parse_namespaced_name n = Some (a, x)" "\<not> native a"
  shows "snd (route n p s) = s
     \<or> (\<exists>i. get_leaf a (fst s) = Some i \<and> touches i (fst s) (fst (snd (route n p s))))"
proof (cases "get_leaf a (fst s)")
  case None
  with unknown [OF assms] show ?thesis by simp
next
  case (Some i)
  show ?thesis
  proof (cases "is_healthy (entry (fst s) i)")
    case True
    from served [OF assms Some True, of p] touches_with_client [OF call_keeps, of i s x p] Some
    show ?thesis by simp
  next
    case False
    from unhealthy [OF assms Some False] show ?thesis by simp
  qed
qed

lemma route_steady:
  assumes "parse_namespaced_name n = Some (a, x)" "\<not> native a"
  shows "steady (fst s) (fst (snd (route n p s)))"
proof (cases "get_leaf a (fst s)")
  case None
  with unknown [OF assms] show ?thesis by simp
next
  case (Some i)
  with served [OF assms Some, of p] unhealthy [OF assms Some, of p] with_client_steady [OF call_keeps, of s i x p]
  show ?thesis by (cases "is_healthy (entry (fst s) i)") simp_all
qed

lemma route_frame:
  assumes "registry_ok (fst s)" "parse_namespaced_name n = Some (a, x)" "\<not> native a" "k \<noteq> a"
  shows "leaf_at (fst (snd (route n p s))) k = leaf_at (fst s) k"
  using route_touches [OF assms(2,3), of p s]
proof
  assume "\<exists>i. get_leaf a (fst s) = Some i \<and> touches i (fst s) (fst (snd (route n p s)))"
  then obtain i where i: "get_leaf a (fst s) = Some i" "touches i (fst s) (fst (snd (route n p s)))" by blast
  have "j \<noteq> i" if "get_leaf k (fst s) = Some j" for j
    using that i(1) assms(1,4) by (auto simp: registry_ok_def)
  with i(2) show ?thesis
    by (cases "get_leaf k (fst s)") (auto simp: leaf_at_def touches_def get_leaf_def)
qed simp

text \<open>The name of an item published by a healthy leaf reaches that leaf under the item's own name.\<close>

lemma route_published:
  assumes "registry_ok r" "leaf_at r a = Some e" "is_healthy e" "alias_routable a" "\<not> native a"
    and "call n p (le_client e, w) = (res, (c', w'))"
  shows "\<exists>r'. route (a @ NAMESPACE_SEPARATOR @ n) p (r, w) = (res, (r', w'))
           \<and> leaf_at r' = (leaf_at r)(a \<mapsto> e\<lparr>le_client := c'\<rparr>)"
proof -
  obtain i where i: "get_leaf a r = Some i" "entry r i = e" using assms(2) by (auto simp: leaf_at_def)
  have len: "i < length (leaf_heap r)" using assms(1) i(1) by (simp add: registry_ok_def)
  let ?r' = "update_leaf i (\<lambda>e. e\<lparr>le_client := c'\<rparr>) r"
  have run: "route (a @ NAMESPACE_SEPARATOR @ n) p (r, w) = (res, (?r', w'))"
    using served [OF parse_routable [OF assms(4)] assms(5), of "(r, w)" i n p] i assms(3,6)
    by (simp add: with_client_def)
  have other: "j \<noteq> i" if "get_leaf k r = Some j" "k \<noteq> a" for k j
    using that i(1) assms(1) by (auto simp: registry_ok_def)
  have "leaf_at ?r' k = ((leaf_at r)(a \<mapsto> e\<lparr>le_client := c'\<rparr>)) k" for k
    using i len other [of k] by (cases "get_leaf k r") (auto simp: leaf_at_def get_leaf_def)
  with run show ?thesis by blast
qed

end

interpretation tr: leaf_route "route_tool_call env to_lower" "call_tool env" "\<lambda>a. a = ''federation''"
  for env :: "'w env" and to_lower
  by unfold_locales (simp_all add: route_tool_call_def keeps_calls)

interpretation rr: leaf_route "\<lambda>n (u :: unit). route_resource_read env n" "\<lambda>n u. read_resource env n" "\<lambda>a. False"
  for env :: "'w env"
  by unfold_locales (simp_all add: route_resource_read_def keeps_calls)

interpretation pr: leaf_route "route_prompt_get env" "get_prompt env" "\<lambda>a. False"
  for env :: "'w env"
  by unfold_locales (simp_all add: route_prompt_get_def keeps_calls)

text \<open>Every route, the federation's own tools included, keeps the table and the settings.\<close>

lemma refresh_each_steady: "steady (fst s) (fst (snd (refresh_each env as s)))"
proof (induction as arbitrary: s)
  case (Cons a as)
  from steady_trans [OF cache_tools_steady [of s env a] Cons.IH] show ?case by (simp add: Let_def split_beta)
qed simp

lemma refresh_tools_steady: "steady (fst s) (fst (snd (refresh_tools env k s)))"
  using cache_tools_steady [of s env]
  by (auto simp: refresh_tools_def split: option.split prod.split sum.split) (metis snd_conv fst_conv)+

text \<open>Of the federation's own tools only \<open>refresh\<close> changes anything.\<close>

lemma native_readonly [simp]:
  "snd (native_list_servers env s) = s" "snd (native_topology env s) = s"
  "snd (native_server_info env args s) = s" "snd (native_search_tools env to_lower args s) = s"
  by (simp_all add: native_list_servers_def native_topology_def native_server_info_def
      native_search_tools_def Let_def split: option.split)

lemma native_refresh_steady: "steady (fst s) (fst (snd (native_refresh env args s)))"
  using refresh_tools_steady [of s env] refresh_each_steady [of s env "all_leaves (fst s)"]
  by (simp add: native_refresh_def split_beta refresh_all_tools_def split: option.split)

lemma handle_native_tool_steady: "steady (fst s) (fst (snd (handle_native_tool env to_lower n args s)))"
  by (simp add: handle_native_tool_def native_refresh_steady)

lemma route_tool_call_steady: "steady (fst s) (fst (snd (route_tool_call env to_lower n args s)))"
proof (cases "parse_namespaced_name n")
  case None
  then show ?thesis using tr.no_separator [OF None, of env to_lower args s] by auto
next
  case (Some ax)
  obtain a x where ax: "ax = (a, x)" by (cases ax)
  show ?thesis
  proof (cases "a = ''federation''")
    case True
    with Some ax handle_native_tool_steady show ?thesis by (simp add: route_tool_call_def)
  next
    case False
    with Some ax tr.route_steady [of n a x s env to_lower args] show ?thesis by simp
  qed
qed

lemma route_resource_read_steady: "steady (fst s) (fst (snd (route_resource_read env n s)))"
  using rr.no_separator [of n env s] rr.route_steady [of n _ _ s env]
  by (cases "parse_namespaced_name n") auto

lemma route_prompt_get_steady: "steady (fst s) (fst (snd (route_prompt_get env n args s)))"
  using pr.no_separator [of n env args s] pr.route_steady [of n _ _ s env args]
  by (cases "parse_namespaced_name n") auto

lemmas routes_steady = route_tool_call_steady route_resource_read_steady route_prompt_get_steady

text \<open>C13: A refusal has no effect: a name without a separator, an unknown alias and an unhealthy leaf
  are answered with their error, nothing is sent and no state changes; the same for resources and
  prompts.\<close>

theorem route_refusals:
  "(case parse_namespaced_name n of
      None \<Rightarrow> (\<exists>m1 m2 m3. route_tool_call env to_lower n args s = (Inl (InvalidToolName m1), s)
               \<and> route_resource_read env n s = (Inl (InvalidToolName m2), s)
               \<and> route_prompt_get env n args s = (Inl (InvalidToolName m3), s))
    | Some (a, x) \<Rightarrow>
        a = ''federation''
        \<or> (case leaf_at (fst s) a of
             None \<Rightarrow> {route_tool_call env to_lower n args s, route_resource_read env n s,
                      route_prompt_get env n args s} = {(Inl (UnknownLeaf a), s)}
           | Some e \<Rightarrow> is_healthy e
               \<or> {route_tool_call env to_lower n args s, route_resource_read env n s,
                  route_prompt_get env n args s} = {(Inl (LeafUnhealthy a), s)}))"
proof (cases "parse_namespaced_name n")
  case None
  then show ?thesis
    using tr.no_separator [of n env to_lower args s] rr.no_separator [of n env s]
      pr.no_separator [of n env args s] by simp
next
  case (Some ax)
  obtain a x where ax: "ax = (a, x)" by (cases ax)
  show ?thesis
  proof (cases "get_leaf a (fst s)")
    case None
    then show ?thesis
      using Some ax tr.unknown [of n a x s env to_lower args] rr.unknown [of n a x s env]
        pr.unknown [of n a x s env args]
      by (auto simp: leaf_at_def)
  next
    case i: (Some i)
    then show ?thesis
      using Some ax tr.unhealthy [of n a x s i env to_lower args] rr.unhealthy [of n a x s i env]
        pr.unhealthy [of n a x s i env args]
      by (auto simp: leaf_at_def)
  qed
qed

text \<open>Isolation between leaves: a call routed to one alias, whatever its outcome, leaves every
  other leaf's entry untouched and keeps the registry invariant; for tools, resources and
  prompts.\<close>

lemma route_isolation:
  assumes "registry_ok (fst s)" and "parse_namespaced_name n = Some (a, x)"
    and "a \<noteq> ''federation''" and "k \<noteq> a"
  shows "leaf_at (fst (snd (route_tool_call env to_lower n args s))) k = leaf_at (fst s) k
    \<and> leaf_at (fst (snd (route_resource_read env n s))) k = leaf_at (fst s) k
    \<and> leaf_at (fst (snd (route_prompt_get env n args s))) k = leaf_at (fst s) k
    \<and> registry_ok (fst (snd (route_tool_call env to_lower n args s)))"
  using tr.route_frame [OF assms(1,2,3,4), of env to_lower args]
    rr.route_frame [OF assms(1,2) _ assms(4), of env] pr.route_frame [OF assms(1,2) _ assms(4), of env args]
    evolves_ok [OF steady_evolves, OF tr.route_steady [OF assms(2,3)] assms(1), of env to_lower args]
  by simp

text \<open>The names published for an alias that ends in one underscore split one character early.\<close>

lemma parse_underscore_alias:
  assumes "alias_ok b" and "last b \<noteq> CHR ''_''"
  shows "parse_namespaced_name ((b @ ''_'') @ NAMESPACE_SEPARATOR @ n) = Some (b, ''_'' @ n)"
  using parse_routable [of b "''_'' @ n"] assms alias_ok_routable by (simp add: NAMESPACE_SEPARATOR_def)

text \<open>The names under which the items of a leaf are published: those of its tools and prompts and the
  identifiers of its resources.\<close>

definition published_under :: "string \<Rightarrow> string \<Rightarrow> bool" where
  "published_under a nm \<longleftrightarrow>
     (\<exists>v t. namespace_tool a v = Some t \<and> json_get_str t ''name'' = Some nm)
     \<or> (\<exists>v t. namespace_resource a v = Some t \<and> json_get_str t ''uri'' = Some nm)
     \<or> (\<exists>v t. namespace_prompt a v = Some t \<and> json_get_str t ''name'' = Some nm)"

lemma published_under_form: "published_under a nm \<Longrightarrow> \<exists>n. nm = a @ NAMESPACE_SEPARATOR @ n"
  unfolding published_under_def using nt.published_form nr.published_form np.published_form by blast

text \<open>C30: A server whose alias ends in one underscore (and is otherwise well-formed) passes validation,
  but nothing it offers can be used: under the very names published for its tools, resources and
  prompts, no call, read or prompt reaches the leaf, whose entry is as before; the request is taken to
  be for the alias without the underscore, and is refused as for an unknown leaf when there is none of
  that alias.\<close>

theorem underscore_alias_misroutes:
  fixes s :: "registry \<times> 'w"
  assumes "b \<noteq> []" and "\<not> str_contains ''__'' b" and "last b \<noteq> CHR ''_''" and "b \<noteq> ''federation''"
    and "sc_alias server = b @ ''_''" and "sc_url server \<noteq> []"
    and "published_under (sc_alias server) nm" and "registry_ok (fst s)"
  shows "validate \<lparr>fc_federation = fs, fc_servers = [server]\<rparr> = Inr ()
    \<and> leaf_at (fst (snd (route_tool_call env to_lower nm args s))) (sc_alias server) = leaf_at (fst s) (sc_alias server)
    \<and> leaf_at (fst (snd (route_resource_read env nm s))) (sc_alias server) = leaf_at (fst s) (sc_alias server)
    \<and> leaf_at (fst (snd (route_prompt_get env nm args s))) (sc_alias server) = leaf_at (fst s) (sc_alias server)
    \<and> (leaf_at (fst s) b = None \<longrightarrow>
         route_tool_call env to_lower nm args s = (Inl (UnknownLeaf b), s)
         \<and> route_resource_read env nm s = (Inl (UnknownLeaf b), s)
         \<and> route_prompt_get env nm args s = (Inl (UnknownLeaf b), s))"
proof (intro conjI impI)
  have b: "alias_ok b" using assms(1,2) by (simp add: alias_ok_def str_simps)
  obtain x where "nm = sc_alias server @ NAMESPACE_SEPARATOR @ x" using published_under_form [OF assms(7)] by blast
  then have nm: "parse_namespaced_name nm = Some (b, ''_'' @ x)"
    using parse_underscore_alias [OF b assms(3)] by (simp add: assms(5))
  have "alias_routable b" using b assms(3) alias_ok_routable by simp
  then show "validate \<lparr>fc_federation = fs, fc_servers = [server]\<rparr> = Inr ()"
    using assms(1,5,6) by (simp add: validate_def alias_routable_def)
  have k: "sc_alias server \<noteq> b" by (simp add: assms(5))
  show "leaf_at (fst (snd (route_tool_call env to_lower nm args s))) (sc_alias server) = leaf_at (fst s) (sc_alias server)"
    "leaf_at (fst (snd (route_resource_read env nm s))) (sc_alias server) = leaf_at (fst s) (sc_alias server)"
    "leaf_at (fst (snd (route_prompt_get env nm args s))) (sc_alias server) = leaf_at (fst s) (sc_alias server)"
    using route_isolation [OF assms(8) nm assms(4) k, of env to_lower args] by simp_all
  assume "leaf_at (fst s) b = None"
  then have none: "get_leaf b (fst s) = None" by (simp add: leaf_at_def split: option.splits)
  show "route_tool_call env to_lower nm args s = (Inl (UnknownLeaf b), s)"
    "route_resource_read env nm s = (Inl (UnknownLeaf b), s)" "route_prompt_get env nm args s = (Inl (UnknownLeaf b), s)"
    using tr.unknown [OF nm assms(4) none, of env to_lower args] rr.unknown [OF nm _ none, of env]
      pr.unknown [OF nm _ none, of env args] by simp_all
qed

theorem underscore_alias_misroutes_witness:
  "let r = from_configs_with_pool ok_env 0 [sample_server ''k8s_''] default_connection_pool_config
   in validate \<lparr>fc_federation = default_federation_settings, fc_servers = [sample_server ''k8s_'']\<rparr> = Inr ()
      \<and> leaf_at r ''k8s_'' \<noteq> None
      \<and> route_tool_call ok_env id ''k8s___pods'' JNull (r, 0) = (Inl (UnknownLeaf ''k8s''), (r, 0))"
proof -
  let ?r = "from_configs_with_pool ok_env 0 [sample_server ''k8s_''] default_connection_pool_config"
  let ?v = "json_obj [(''name'', JString ''pods'')]"
  have at: "leaf_at ?r ''k8s_'' \<noteq> None" "leaf_at ?r ''k8s'' = None"
    by (simp_all add: from_configs_put rt.lookup_put with_pool_ok)
  have v: "json_get_str ?v ''name'' = Some ''pods''" by (simp add: json_get_str_def json_simps)
  then obtain t where t: "namespace_tool ''k8s_'' ?v = Some t" using nt.ns_None [of "''k8s_''" ?v] by auto
  have pub: "published_under ''k8s_'' ''k8s___pods''"
    using t nt.ns_ident [OF t v] by (auto simp: published_under_def NAMESPACE_SEPARATOR_def)
  have sep: "\<not> str_contains ''__'' ''k8s''" by (simp add: str_contains_def)
  have server: "sc_alias (sample_server ''k8s_'') = ''k8s'' @ ''_''" "sc_url (sample_server ''k8s_'') \<noteq> []"
    by (simp_all add: sample_server_def)
  have "registry_ok (fst (?r, 0 :: nat))" using from_configs_ok by simp
  from underscore_alias_misroutes [OF _ sep _ _ server _ this, where nm = "''k8s___pods''"
      and fs = default_federation_settings and env = ok_env and to_lower = id and args = JNull] at pub
  show ?thesis by (simp add: Let_def server)
qed

end
