(* ===== verification/Fed_Session.thy ===== *)
theory Fed_Session
  imports Fed_Protocol
begin

text \<open>
  Client sessions (\<open>src/src/session.rs\<close>): the signed token that is a session's id, the table of
  sessions in memory, and the operations on it.  The JWT and base64 libraries and the random
  source are parameters; a reading of \<open>Instant::now\<close> or of the system clock is an argument.
\<close>

record session_state =
  created_at :: instant
  last_active :: instant
  ss_client_info :: "json option"
  ss_log_level :: "string option"

record session_claims =
  cl_sub :: string
  cl_iss :: string
  cl_iat :: u64
  cl_exp :: u64
  cl_client_info :: "json option"

record session_manager =
  sm_ttl :: duration
  sessions :: "(string, session_state) hmap"
  encoding_key :: string
  decoding_key :: string

text \<open>
  The token library: \<open>encode\<close> with a key, and \<open>decode\<close> with the accepted issuers, the leeway in
  seconds, a key and the system time it reads.
\<close>

record jwt_lib =
  jwt_encode :: "string \<Rightarrow> session_claims \<Rightarrow> string"
  jwt_decode :: "string list \<Rightarrow> u64 \<Rightarrow> string \<Rightarrow> u64 \<Rightarrow> string \<Rightarrow> string + session_claims"

definition JWT_ISSUER :: string where
  "JWT_ISSUER = ''mcp-federation''"

definition session_manager_new ::
  "(string \<Rightarrow> string + string) \<Rightarrow> string \<Rightarrow> u64 \<Rightarrow> string option \<Rightarrow> session_manager" where
  "session_manager_new base64_decode random_key ttl_seconds secret =
     (let key_bytes = (case secret of
            Some b64 \<Rightarrow>
              (case base64_decode b64 of
                 Inr bytes \<Rightarrow> if bytes \<noteq> [] then bytes else random_key
               | Inl e \<Rightarrow> random_key)
          | None \<Rightarrow> random_key)
      in \<lparr>sm_ttl = duration_from_secs ttl_seconds, sessions = hm_empty,
          encoding_key = key_bytes, decoding_key = key_bytes\<rparr>)"

text \<open>The claims of a new session; the addition is on \<open>u64\<close> and wraps around as in a release build, where
  a build with overflow checks panics.\<close>

definition new_claims :: "string \<Rightarrow> u64 \<Rightarrow> json option \<Rightarrow> session_manager \<Rightarrow> session_claims" where
  "new_claims sub now_secs client_info m =
     \<lparr>cl_sub = sub, cl_iss = JWT_ISSUER, cl_iat = now_secs,
      cl_exp = now_secs + of_nat (as_secs (sm_ttl m)), cl_client_info = client_info\<rparr>"

definition create_session ::
  "jwt_lib \<Rightarrow> string \<Rightarrow> u64 \<Rightarrow> instant \<Rightarrow> json option \<Rightarrow> session_manager \<Rightarrow> string \<times> session_manager" where
  "create_session lib uuid now_secs now client_info m =
     (let claims = new_claims uuid now_secs client_info m;
          jwt = jwt_encode lib (encoding_key m) claims;
          state = \<lparr>created_at = now, last_active = now, ss_client_info = client_info,
                   ss_log_level = None\<rparr>
      in (jwt, m\<lparr>sessions := hm_insert jwt state (sessions m)\<rparr>))"

definition decode_claims ::
  "jwt_lib \<Rightarrow> u64 \<Rightarrow> string \<Rightarrow> session_manager \<Rightarrow> string + session_claims" where
  "decode_claims lib unix sid m = jwt_decode lib [JWT_ISSUER] 5 (decoding_key m) unix sid"

definition validate_session ::
  "jwt_lib \<Rightarrow> u64 \<Rightarrow> instant \<Rightarrow> string \<Rightarrow> session_manager \<Rightarrow> bool" where
  "validate_session lib unix now sid m \<longleftrightarrow>
     (case decode_claims lib unix sid m of
        Inl e \<Rightarrow> False
      | Inr c \<Rightarrow> (case hm_get (sessions m) sid of
                   Some s \<Rightarrow> elapsed now (last_active s) < sm_ttl m
                 | None \<Rightarrow> False))"

definition touch_session :: "instant \<Rightarrow> string \<Rightarrow> session_manager \<Rightarrow> session_manager" where
  "touch_session now sid m =
     (case hm_get (sessions m) sid of
        Some s \<Rightarrow> m\<lparr>sessions := hm_insert sid (s\<lparr>last_active := now\<rparr>) (sessions m)\<rparr>
      | None \<Rightarrow> m)"

definition terminate_session :: "string \<Rightarrow> session_manager \<Rightarrow> bool \<times> session_manager" where
  "terminate_session sid m =
     (hm_get (sessions m) sid \<noteq> None, m\<lparr>sessions := hm_remove sid (sessions m)\<rparr>)"

definition set_log_level :: "string \<Rightarrow> string \<Rightarrow> session_manager \<Rightarrow> bool \<times> session_manager" where
  "set_log_level sid level m =
     (case hm_get (sessions m) sid of
        Some s \<Rightarrow> (True, m\<lparr>sessions := hm_insert sid (s\<lparr>ss_log_level := Some level\<rparr>) (sessions m)\<rparr>)
      | None \<Rightarrow> (False, m))"

definition get_log_level :: "string \<Rightarrow> session_manager \<Rightarrow> string option" where
  "get_log_level sid m = Option.bind (hm_get (sessions m) sid) ss_log_level"

text \<open>\<open>now\<close> gives the clock reading made at each entry while \<open>retain\<close> walks the table.\<close>

definition prune_expired :: "(string \<Rightarrow> instant) \<Rightarrow> session_manager \<Rightarrow> nat \<times> session_manager" where
  "prune_expired now m =
     (let before = length (hm_keys (sessions m));
          kept = hm_retain (\<lambda>sid s. elapsed (now sid) (last_active s) < sm_ttl m) (sessions m)
      in (before - length (hm_keys kept), m\<lparr>sessions := kept\<rparr>))"

definition active_count :: "session_manager \<Rightarrow> nat" where
  "active_count m = length (hm_keys (sessions m))"

text \<open>
  One round of the prune task after its sleep: \<open>alive\<close> is whether the weak reference to the
  manager still upgrades; the task ends when it does not.
\<close>

definition prune_task_round ::
  "bool \<Rightarrow> (string \<Rightarrow> instant) \<Rightarrow> session_manager \<Rightarrow> session_manager option" where
  "prune_task_round alive now m = (if \<not> alive then None else Some (snd (prune_expired now m)))"

section \<open>Facts\<close>

text \<open>
  What the token library documents of a token it made itself: it decodes to its claims with the
  same key when the issuer is accepted and the expiry time plus the leeway has not passed, and is
  refused otherwise.
\<close>

definition token_verifies :: "jwt_lib \<Rightarrow> string \<Rightarrow> session_claims \<Rightarrow> bool" where
  "token_verifies lib key c \<longleftrightarrow>
     (\<forall>issuers leeway unix.
        case jwt_decode lib issuers leeway key unix (jwt_encode lib key c) of
          Inr c' \<Rightarrow> c' = c \<and> cl_iss c \<in> set issuers \<and> unat unix \<le> unat (cl_exp c) + unat leeway
        | Inl e \<Rightarrow> cl_iss c \<notin> set issuers \<or> unat (cl_exp c) + unat leeway < unat unix)"

definition manager_ok :: "session_manager \<Rightarrow> bool" where
  "manager_ok m \<longleftrightarrow> hm_wf (sessions m) \<and> encoding_key m = decoding_key m"

lemma manager_new_ok: "manager_ok (session_manager_new b64 rnd ttl secret)"
  by (simp add: manager_ok_def session_manager_new_def Let_def hm_simps)

lemma manager_new_ttl: "sm_ttl (session_manager_new b64 rnd ttl secret) = duration_from_secs ttl"
  by (simp add: session_manager_new_def Let_def)

text \<open>What the operations do to one entry of the table and to the settings.\<close>

lemma touch_get [hm_simps]:
  "hm_get (sessions (touch_session now sid m)) sid' =
     (if sid' = sid then map_option (last_active_update (\<lambda>_. now)) (hm_get (sessions m) sid)
      else hm_get (sessions m) sid')"
  by (auto simp: touch_session_def hm_simps split: option.splits)

lemma terminate_get [hm_simps]:
  "hm_get (sessions (snd (terminate_session sid m))) sid' =
     (if sid' = sid then None else hm_get (sessions m) sid')"
  by (simp add: terminate_session_def hm_simps)

lemma set_log_level_get [hm_simps]:
  "hm_get (sessions (snd (set_log_level sid level m))) sid' =
     (if sid' = sid then map_option (ss_log_level_update (\<lambda>_. Some level)) (hm_get (sessions m) sid)
      else hm_get (sessions m) sid')"
  by (auto simp: set_log_level_def hm_simps split: option.splits)

lemma prune_get [hm_simps]:
  "hm_wf (sessions m) \<Longrightarrow> hm_get (sessions (snd (prune_expired now m))) sid =
     (case hm_get (sessions m) sid of
        None \<Rightarrow> None
      | Some s \<Rightarrow> if elapsed (now sid) (last_active s) < sm_ttl m then Some s else None)"
  by (simp add: prune_expired_def Let_def hm_simps)

lemma create_get [hm_simps]:
  "hm_get (sessions (snd (create_session lib u secs now ci m))) sid =
     (if sid = fst (create_session lib u secs now ci m)
      then Some \<lparr>created_at = now, last_active = now, ss_client_info = ci, ss_log_level = None\<rparr>
      else hm_get (sessions m) sid)"
  by (simp add: create_session_def Let_def hm_simps)

section \<open>Histories\<close>

text \<open>The operations other parts of the program interleave on one manager.\<close>

datatype session_event =
    ETouch instant string
  | ETerminate string
  | ESetLevel string string
  | EPrune "string \<Rightarrow> instant"
  | ECreate string u64 instant "json option"

fun session_step :: "jwt_lib \<Rightarrow> session_event \<Rightarrow> session_manager \<Rightarrow> session_manager" where
  "session_step lib (ETouch now sid) m = touch_session now sid m"
| "session_step lib (ETerminate sid) m = snd (terminate_session sid m)"
| "session_step lib (ESetLevel sid level) m = snd (set_log_level sid level m)"
| "session_step lib (EPrune now) m = snd (prune_expired now m)"
| "session_step lib (ECreate uuid secs now ci) m = snd (create_session lib uuid secs now ci m)"

definition session_run :: "jwt_lib \<Rightarrow> session_event list \<Rightarrow> session_manager \<Rightarrow> session_manager" where
  "session_run lib es m = fold (session_step lib) es m"

text \<open>One session seen alone: when it was last active, or that it is gone.\<close>

fun track_step :: "duration \<Rightarrow> string \<Rightarrow> session_event \<Rightarrow> instant option \<Rightarrow> instant option" where
  "track_step ttl sid (ETouch now sid') la = (if sid' = sid then map_option (\<lambda>_. now) la else la)"
| "track_step ttl sid (ETerminate sid') la = (if sid' = sid then None else la)"
| "track_step ttl sid (ESetLevel sid' level) la = la"
| "track_step ttl sid (EPrune now) la =
     (case la of None \<Rightarrow> None | Some t \<Rightarrow> if elapsed (now sid) t < ttl then Some t else None)"
| "track_step ttl sid (ECreate uuid secs now ci) la = la"

definition track :: "duration \<Rightarrow> string \<Rightarrow> session_event list \<Rightarrow> instant option \<Rightarrow> instant option" where
  "track ttl sid es la = fold (track_step ttl sid) es la"

text \<open>No event of the history mints the id again (the ids carry a fresh random UUID).\<close>

fun mints :: "jwt_lib \<Rightarrow> session_manager \<Rightarrow> session_event \<Rightarrow> string option" where
  "mints lib m (ECreate uuid secs now ci) =
     Some (jwt_encode lib (encoding_key m) (new_claims uuid secs ci m))"
| "mints lib m _ = None"

lemma step_settings [simp]:
  "sm_ttl (session_step lib e m) = sm_ttl m"
  "encoding_key (session_step lib e m) = encoding_key m"
  "decoding_key (session_step lib e m) = decoding_key m"
  by (cases e; simp add: touch_session_def terminate_session_def set_log_level_def
      prune_expired_def create_session_def Let_def split: option.split)+

lemma mints_step [simp]: "mints lib (session_step lib e' m) e = mints lib m e"
  by (cases e) (simp_all add: new_claims_def)

lemma step_ok: "manager_ok m \<Longrightarrow> manager_ok (session_step lib e m)"
  unfolding manager_ok_def
  by (cases e; simp add: touch_session_def terminate_session_def set_log_level_def
      prune_expired_def create_session_def Let_def hm_simps split: option.split)

lemma step_track:
  assumes "manager_ok m" "mints lib m e \<noteq> Some sid"
  shows "map_option last_active (hm_get (sessions (session_step lib e m)) sid) =
         track_step (sm_ttl m) sid e (map_option last_active (hm_get (sessions m) sid))"
  using assms
  by (cases e; simp add: hm_simps manager_ok_def create_session_def Let_def option.map_comp comp_def
      split: option.split)

lemma run_track:
  assumes "manager_ok m" "Some sid \<notin> mints lib m ` set es"
  shows "map_option last_active (hm_get (sessions (session_run lib es m)) sid) =
         track (sm_ttl m) sid es (map_option last_active (hm_get (sessions m) sid))"
  using assms
proof (induction es arbitrary: m)
  case (Cons e es)
  have "mints lib m e \<noteq> Some sid" using Cons.prems by force
  moreover have "Some sid \<notin> mints lib (session_step lib e m) ` set es" using Cons.prems by simp
  ultimately show ?case
    using Cons.IH [OF step_ok] Cons.prems(1)
    by (simp add: session_run_def track_def step_track)
qed (simp add: session_run_def track_def)

lemma run_settings [simp]:
  "sm_ttl (session_run lib es m) = sm_ttl m"
  "encoding_key (session_run lib es m) = encoding_key m"
  "decoding_key (session_run lib es m) = decoding_key m"
  by (induction es arbitrary: m) (simp_all add: session_run_def)

text \<open>One manager comes from another by some history.\<close>

definition follows :: "jwt_lib \<Rightarrow> session_manager \<Rightarrow> session_manager \<Rightarrow> bool" where
  "follows lib m m' \<longleftrightarrow> (\<exists>es. m' = session_run lib es m)"

lemma followsI: "m' = session_run lib es m \<Longrightarrow> follows lib m m'"
  by (auto simp: follows_def)

lemma follows_refl [simp]: "follows lib m m"
  by (rule followsI [of _ _ "[]"]) (simp add: session_run_def)

lemma follows_trans: "follows lib m m1 \<Longrightarrow> follows lib m1 m2 \<Longrightarrow> follows lib m m2"
  by (auto simp: follows_def session_run_def simp flip: fold_append intro: exI [of _ "_ @ _"])
    (metis comp_apply fold_append)

lemma follows_step: "follows lib m (session_step lib e m)"
  by (rule followsI [of _ _ "[e]"]) (simp add: session_run_def)

lemmas follows_ops [simp] =
  follows_step [of lib m "ETouch now sid" for lib m now sid, simplified]
  follows_step [of lib m "ETerminate sid" for lib m sid, simplified]
  follows_step [of lib m "ESetLevel sid level" for lib m sid level, simplified]
  follows_step [of lib m "EPrune at" for lib m at, simplified]
  follows_step [of lib m "ECreate uuid secs now ci" for lib m uuid secs now ci, simplified]

lemma validate_via_track:
  "validate_session lib unix now sid m \<longleftrightarrow>
     (\<exists>c. decode_claims lib unix sid m = Inr c)
     \<and> (case map_option last_active (hm_get (sessions m) sid) of
          None \<Rightarrow> False | Some t \<Rightarrow> elapsed now t < sm_ttl m)"
  by (auto simp: validate_session_def split: sum.splits option.splits)

lemma token_verifies_decode:
  assumes "token_verifies lib key c"
  shows "(\<exists>c'. jwt_decode lib issuers leeway key unix (jwt_encode lib key c) = Inr c') \<longleftrightarrow>
         cl_iss c \<in> set issuers \<and> unat unix \<le> unat (cl_exp c) + unat leeway"
  using assms [unfolded token_verifies_def, rule_format, of issuers leeway unix]
  by (auto split: sum.splits)

text \<open>The whole life of a session.  After it is created, and whatever operations other
  clients, the prune task and its own client interleave, the session is accepted exactly when the
  expiry stamped at its creation has not passed by more than five seconds (touching it never
  extends that) and it is neither terminated, nor pruned while idle, nor idle for the time to live
  since its last touch.\<close>

lemma session_lifetime:
  assumes "manager_ok m"
    and "token_verifies lib (encoding_key m) (new_claims uuid secs ci m)"
    and "create_session lib uuid secs created ci m = (sid, m1)"
    and "Some sid \<notin> mints lib m ` set es"
  shows "validate_session lib unix now sid (session_run lib es m1) \<longleftrightarrow>
           unat unix \<le> unat (cl_exp (new_claims uuid secs ci m)) + 5
           \<and> (case track (sm_ttl m) sid es (Some created) of
                None \<Rightarrow> False | Some t \<Rightarrow> elapsed now t < sm_ttl m)"
proof -
  have m1: "m1 = session_step lib (ECreate uuid secs created ci) m" using assms(3) by simp
  have sid: "sid = jwt_encode lib (decoding_key m) (new_claims uuid secs ci m)"
    using assms(1,3) by (auto simp: create_session_def Let_def manager_ok_def)
  have la: "map_option last_active (hm_get (sessions m1) sid) = Some created"
    using assms(3) by (auto simp: create_session_def Let_def hm_simps)
  have keep: "sm_ttl m1 = sm_ttl m" "decoding_key m1 = decoding_key m"
    unfolding m1 by (rule step_settings)+
  have ok: "manager_ok m1" unfolding m1 by (rule step_ok [OF assms(1)])
  have "mints lib m1 = mints lib m" unfolding m1 by (rule ext) (rule mints_step)
  with assms(4) have "Some sid \<notin> mints lib m1 ` set es" by simp
  from run_track [OF ok this] have
    "map_option last_active (hm_get (sessions (session_run lib es m1)) sid) =
       track (sm_ttl m) sid es (Some created)"
    by (simp only: la keep)
  moreover have "(\<exists>c. decode_claims lib unix sid (session_run lib es m1) = Inr c) \<longleftrightarrow>
      unat unix \<le> unat (cl_exp (new_claims uuid secs ci m)) + 5"
    using token_verifies_decode [OF assms(2), of "[JWT_ISSUER]" 5 unix] assms(1)
    by (simp add: decode_claims_def sid keep manager_ok_def new_claims_def)
  ultimately show ?thesis by (simp add: validate_via_track keep split: option.split)
qed

text \<open>A token library for one token, to show that the hypotheses hold together.\<close>

definition one_token_lib :: "session_claims \<Rightarrow> jwt_lib" where
  "one_token_lib c =
     \<lparr>jwt_encode = (\<lambda>key c. cl_sub c),
      jwt_decode = (\<lambda>issuers leeway key unix tok.
        if tok = cl_sub c \<and> cl_iss c \<in> set issuers \<and> unat unix \<le> unat (cl_exp c) + unat leeway
        then Inr c else Inl ''rejected'')\<rparr>"

lemma one_token_verifies: "token_verifies (one_token_lib c) key c"
  by (auto simp: token_verifies_def one_token_lib_def)

text \<open>Pruning reports exactly how many sessions it removed, and is invisible to every client:
  a session is accepted at a later moment exactly when it would have been without the pruning.\<close>

lemma prune_transparent:
  assumes "manager_ok m" and "prune_expired at m = (n, m')" and "at sid \<le> later"
  shows "validate_session lib unix later sid m' = validate_session lib unix later sid m
         \<and> active_count m' + n = active_count m"
proof
  have m': "m' = snd (prune_expired at m)" and n: "n = fst (prune_expired at m)"
    using assms(2) by simp_all
  have wf: "hm_wf (sessions m)" using assms(1) by (simp add: manager_ok_def)
  have keep: "decoding_key (snd (prune_expired at m)) = decoding_key m"
    "sm_ttl (snd (prune_expired at m)) = sm_ttl m"
    by (simp_all add: prune_expired_def Let_def)
  have "elapsed (at sid) t \<le> elapsed later t" for t using assms(3) by (simp add: elapsed_def)
  then show "validate_session lib unix later sid m' = validate_session lib unix later sid m"
    using wf by (auto simp: validate_session_def decode_claims_def m' keep hm_simps
        split: sum.split option.split dest: order.strict_trans1)
  show "active_count m' + n = active_count m"
    using hm.retain_length_le [OF wf]
    by (simp add: m' n prune_expired_def Let_def active_count_def)
qed

end
