(* ===== verification/Fed_Rbac.thy ===== *)
theory Fed_Rbac
  imports Fed_Config
begin

text \<open>
  Per-client access control (\<open>src/src/rbac.rs\<close>): the request context, the alias test, and the
  resolution of a bearer token to a context.
\<close>

record request_context =
  client_id :: "string option"
  allowed_servers :: "string list option"

definition anonymous_ctx :: request_context where
  "anonymous_ctx = \<lparr>client_id = None, allowed_servers = None\<rparr>"

definition admin_ctx :: request_context where
  "admin_ctx = \<lparr>client_id = Some ''admin'', allowed_servers = None\<rparr>"

definition allows_alias :: "request_context \<Rightarrow> string \<Rightarrow> bool" where
  "allows_alias ctx alias \<longleftrightarrow>
     (if alias = ''federation'' then True
      else case allowed_servers ctx of
             None \<Rightarrow> True
           | Some xs \<Rightarrow> list_ex (\<lambda>s. s = ''*'' \<or> s = alias) xs)"

definition client_label :: "request_context \<Rightarrow> string" where
  "client_label ctx = (case client_id ctx of None \<Rightarrow> ''anonymous'' | Some i \<Rightarrow> i)"

text \<open>The loop over \<open>clients.iter().enumerate()\<close>.\<close>

fun resolve_clients :: "string \<Rightarrow> nat \<Rightarrow> client_config list \<Rightarrow> request_context option" where
  "resolve_clients presented idx [] = None"
| "resolve_clients presented idx (client # clients) =
     (if cc_token client = presented
      then Some \<lparr>client_id = Some (''client-'' @ show_nat idx),
                 allowed_servers =
                   (if list_ex (\<lambda>s. s = ''*'') (cc_allowed_servers client) then None
                    else Some (cc_allowed_servers client))\<rparr>
      else resolve_clients presented (Suc idx) clients)"

definition resolve :: "string \<Rightarrow> string \<Rightarrow> client_config list \<Rightarrow> request_context option" where
  "resolve presented admin_token clients =
     (if presented = admin_token then Some admin_ctx else resolve_clients presented 0 clients)"

section \<open>Facts\<close>

text \<open>What a client entry grants.\<close>

definition client_grants :: "client_config \<Rightarrow> string \<Rightarrow> bool" where
  "client_grants c alias \<longleftrightarrow>
     alias = ''federation'' \<or> ''*'' \<in> set (cc_allowed_servers c) \<or> alias \<in> set (cc_allowed_servers c)"

lemma allows_alias_unrestricted [simp]: "allowed_servers ctx = None \<Longrightarrow> allows_alias ctx a"
  by (simp add: allows_alias_def)

lemma allows_alias_federation [simp]: "allows_alias ctx ''federation''"
  by (simp add: allows_alias_def)

lemma resolve_clients_grants:
  assumes "resolve_clients presented idx clients = Some ctx"
  shows "\<exists>c. find (\<lambda>c. cc_token c = presented) clients = Some c
           \<and> (\<forall>a. allows_alias ctx a \<longleftrightarrow> client_grants c a)"
  using assms
  by (induction presented idx clients rule: resolve_clients.induct)
    (auto simp: allows_alias_def client_grants_def list_ex_iff split: if_splits)

lemma resolve_clients_None:
  "resolve_clients presented idx clients = None \<longleftrightarrow> presented \<notin> cc_token ` set clients"
  by (induction presented idx clients rule: resolve_clients.induct) auto

lemma find_first_entry:
  assumes "find (\<lambda>c. cc_token c = tok) clients = Some c"
  shows "c \<in> set clients" "cc_token c = tok"
  using assms by (auto simp: find_Some_iff)

text \<open>A token is rejected exactly when it is neither the administrator's nor any client's;
  the administrator's token gives unrestricted access even when a client entry repeats it; and a
  client's token gives exactly the aliases of the first entry with that token, besides the
  federation's own namespace.\<close>

lemma resolve_spec:
  "(case resolve presented admin clients of
      None \<Rightarrow> presented \<noteq> admin \<and> presented \<notin> cc_token ` set clients
    | Some ctx \<Rightarrow>
        (if presented = admin then ctx = admin_ctx \<and> allows_alias ctx = (\<lambda>_. True)
         else \<exists>c. find (\<lambda>c. cc_token c = presented) clients = Some c
                \<and> allows_alias ctx = client_grants c))"
proof (cases "presented = admin")
  case True
  then show ?thesis
    by (auto simp: resolve_def admin_ctx_def fun_eq_iff)
next
  case False
  then show ?thesis
    using resolve_clients_grants [of presented 0 clients] resolve_clients_None [of presented 0 clients]
    by (auto simp: resolve_def fun_eq_iff split: option.splits)
qed

end
