(* ===== verification/Fed_RateLimit.thy ===== *)
theory Fed_RateLimit
  imports Fed_Config
begin

text \<open>
  The per-client token-bucket rate limiter (\<open>src/src/rate_limit.rs\<close>).  The mutex makes \<open>check\<close>
  atomic; the two readings of the clock in it (before the lock, and in \<open>TokenBucket::new\<close>) are
  two arguments.
\<close>

record token_bucket =
  tokens :: f64
  max_tokens :: f64
  refill_rate :: f64
  last_refill :: instant

definition bucket_new :: "f64 \<Rightarrow> f64 \<Rightarrow> instant \<Rightarrow> token_bucket" where
  "bucket_new mx rate created =
     \<lparr>tokens = mx, max_tokens = mx, refill_rate = rate, last_refill = created\<rparr>"

definition refill :: "instant \<Rightarrow> token_bucket \<Rightarrow> token_bucket" where
  "refill now b =
     (let el = as_secs_f64 (elapsed now (last_refill b))
      in if 0 < el
         then b\<lparr>tokens := f64_min (tokens b + el * refill_rate b) (max_tokens b),
                last_refill := now\<rparr>
         else b)"

definition try_acquire :: "instant \<Rightarrow> token_bucket \<Rightarrow> bool \<times> token_bucket" where
  "try_acquire now b0 =
     (let b = refill now b0
      in if 1 \<le> tokens b then (True, b\<lparr>tokens := tokens b - 1\<rparr>) else (False, b))"

record rate_limiter =
  rl_config :: rate_limit_config
  buckets :: "(string, token_bucket) hmap"

definition rate_limiter_new :: "rate_limit_config \<Rightarrow> rate_limiter" where
  "rate_limiter_new cfg = \<lparr>rl_config = cfg, buckets = hm_empty\<rparr>"

definition limiter_enabled :: "rate_limiter \<Rightarrow> bool" where
  "limiter_enabled l = rl_enabled (rl_config l)"

definition check :: "string \<Rightarrow> instant \<Rightarrow> instant \<Rightarrow> rate_limiter \<Rightarrow> bool \<times> rate_limiter" where
  "check key now created l =
     (if \<not> rl_enabled (rl_config l) then (True, l)
      else
        let mx = f64_of_nat (unat (burst_size (rl_config l)));
            rate = f64_of_nat (unat (requests_per_second (rl_config l)));
            bucket = (case hm_get (buckets l) key of
                        None \<Rightarrow> bucket_new mx rate created
                      | Some b \<Rightarrow> b);
            (ok, bucket') = try_acquire now bucket
        in (ok, l\<lparr>buckets := hm_insert key bucket' (buckets l)\<rparr>))"

section \<open>Invariant\<close>

text \<open>The rational value of a 32-bit counter: small enough to be exact.\<close>

definition u32_rat :: "u32 \<Rightarrow> rat" where
  "u32_rat w = of_nat (unat w)"

lemma u32_lt_2p53: "u32_rat w < 2 ^ 53"
proof -
  have "unat w < 2 ^ 53" using unsigned_less [of w, where ?'a = nat] by simp
  then have "(of_nat (unat w) :: rat) < of_nat (2 ^ 53)" by (simp only: of_nat_less_iff)
  then show ?thesis by (simp add: u32_rat_def)
qed

lemma f64_rep_u32 [simp]: "f64_rep (u32_rat w)"
  unfolding u32_rat_def
  using unsigned_less [of w, where ?'a = nat] by (intro f64_rep_nat) simp

lemma u32_rat_nonneg [simp]: "0 \<le> u32_rat w"
  unfolding u32_rat_def by (rule of_nat_0_le_iff)

lemma f64_of_u32: "f64_of_nat (unat (w :: u32)) = Fin (u32_rat w)"
  unfolding u32_rat_def by (rule f64_of_nat_u32)

text \<open>
  A bucket of a limiter holds a representable number of tokens between zero and the burst size,
  and the limits the configuration gives.
\<close>

definition bucket_ok :: "rate_limit_config \<Rightarrow> token_bucket \<Rightarrow> bool" where
  "bucket_ok cfg b \<longleftrightarrow>
     (\<exists>t. tokens b = Fin t \<and> f64_rep t \<and> t \<le> u32_rat (burst_size cfg))
     \<and> max_tokens b = Fin (u32_rat (burst_size cfg))
     \<and> refill_rate b = Fin (u32_rat (requests_per_second cfg))"

definition limiter_ok :: "rate_limiter \<Rightarrow> bool" where
  "limiter_ok l \<longleftrightarrow>
     hm_wf (buckets l) \<and> (\<forall>k b. hm_get (buckets l) k = Some b \<longrightarrow> bucket_ok (rl_config l) b)"

text \<open>Refilling keeps the invariant and never takes tokens away.\<close>

lemma refill_amount:
  assumes t: "f64_rep t" "t \<le> m" and m: "f64_rep m" and y: "f64_nn y"
  shows "\<exists>t'. f64_min (Fin t + y) (Fin m) = Fin t' \<and> f64_rep t' \<and> t \<le> t' \<and> t' \<le> m"
proof (cases y)
  case (Fin a)
  have nn: "0 \<le> t" "0 \<le> a" using t y Fin by (auto simp: f64_rep_def f64_nn_def f64_nonneg_def)
  have "t \<le> f64_mag (t + a)" using t nn by (intro f64r.rnd_ge) simp_all
  with Fin nn t m show ?thesis
    by (auto simp: f64_ops f64_of_rat_nonneg f64r.rnd_rep)
qed (use t m y in \<open>auto simp: f64_ops f64_nn_def f64_nonneg_def\<close>)

lemma refill_ok:
  assumes "bucket_ok cfg b"
  shows "bucket_ok cfg (refill now b)"
    and "\<exists>t t'. tokens b = Fin t \<and> tokens (refill now b) = Fin t' \<and> t \<le> t'"
proof -
  let ?m = "u32_rat (burst_size cfg)" and ?r = "u32_rat (requests_per_second cfg)"
  from assms obtain t where t: "tokens b = Fin t" "f64_rep t" "t \<le> ?m"
    and mx: "max_tokens b = Fin ?m" and r: "refill_rate b = Fin ?r"
    by (auto simp: bucket_ok_def)
  have "f64_nn (as_secs_f64 (elapsed now (last_refill b)) * Fin ?r)"
    by (rule f64_nn_mul) simp_all
  from refill_amount [OF t(2,3) f64_rep_u32 this] obtain t' where
    t': "f64_min (Fin t + as_secs_f64 (elapsed now (last_refill b)) * Fin ?r) (Fin ?m) = Fin t'"
    "f64_rep t'" "t \<le> t'" "t' \<le> ?m" by blast
  show "bucket_ok cfg (refill now b)"
    using assms t t' mx r by (auto simp: bucket_ok_def refill_def Let_def)
  show "\<exists>t t'. tokens b = Fin t \<and> tokens (refill now b) = Fin t' \<and> t \<le> t'"
    using t t' mx r by (auto simp: refill_def Let_def)
qed

text \<open>Taking a token is exact.\<close>

lemma minus_1_exact:
  assumes "f64_rep t" "1 \<le> t" "t < 2 ^ 53"
  shows "Fin t - 1 = Fin (t - 1)"
proof -
  have "f64_rep (t - 1)" using assms by (rule f64_rep_minus_1)
  moreover have "t - 1 < 2 ^ 1024" using assms(3) two_pow_53_1024 by linarith
  ultimately show ?thesis by (simp add: f64_ops f64_of_rat_rep)
qed

lemma try_acquire_ok:
  assumes "bucket_ok cfg b"
  shows "bucket_ok cfg (snd (try_acquire now b))"
    and "\<exists>t. tokens (refill now b) = Fin t \<and> fst (try_acquire now b) = (1 \<le> t)
          \<and> tokens (snd (try_acquire now b)) = Fin (if 1 \<le> t then t - 1 else t)"
    and "last_refill (snd (try_acquire now b)) = last_refill (refill now b)"
proof -
  note ok = refill_ok(1) [OF assms, of now]
  then obtain t where t: "tokens (refill now b) = Fin t" "f64_rep t"
    "t \<le> u32_rat (burst_size cfg)" by (auto simp: bucket_ok_def)
  then have lt: "t < 2 ^ 53" using u32_lt_2p53 [of "burst_size cfg"] by linarith
  have one: "(1 \<le> Fin t) = (1 \<le> t)" by (simp add: f64_ops)
  show "bucket_ok cfg (snd (try_acquire now b))"
    using ok t lt one minus_1_exact [OF t(2)] f64_rep_minus_1 [OF t(2)]
    by (auto simp: try_acquire_def Let_def bucket_ok_def)
  show "\<exists>t. tokens (refill now b) = Fin t \<and> fst (try_acquire now b) = (1 \<le> t)
          \<and> tokens (snd (try_acquire now b)) = Fin (if 1 \<le> t then t - 1 else t)"
    using t lt one minus_1_exact [OF t(2)] by (auto simp: try_acquire_def Let_def)
  show "last_refill (snd (try_acquire now b)) = last_refill (refill now b)"
    by (simp add: try_acquire_def Let_def)
qed

lemma bucket_new_ok:
  "bucket_ok cfg (bucket_new (f64_of_nat (unat (burst_size cfg)))
     (f64_of_nat (unat (requests_per_second cfg))) created)"
  by (simp add: bucket_ok_def bucket_new_def f64_of_u32)

text \<open>The bucket \<open>check\<close> works on.\<close>

definition bucket_at :: "rate_limiter \<Rightarrow> string \<Rightarrow> instant \<Rightarrow> token_bucket" where
  "bucket_at l key created =
     (case hm_get (buckets l) key of
        None \<Rightarrow> bucket_new (f64_of_nat (unat (burst_size (rl_config l))))
                  (f64_of_nat (unat (requests_per_second (rl_config l)))) created
      | Some b \<Rightarrow> b)"

lemma check_enabled:
  "rl_enabled (rl_config l) \<Longrightarrow>
     check key now created l =
       (fst (try_acquire now (bucket_at l key created)),
        l\<lparr>buckets := hm_insert key (snd (try_acquire now (bucket_at l key created))) (buckets l)\<rparr>)"
  by (simp add: check_def bucket_at_def Let_def split_beta)

lemma bucket_at_ok: "limiter_ok l \<Longrightarrow> bucket_ok (rl_config l) (bucket_at l key created)"
  by (auto simp: bucket_at_def limiter_ok_def bucket_new_ok split: option.splits)

lemma check_config [simp]: "rl_config (snd (check key now created l)) = rl_config l"
  by (simp add: check_def Let_def split_beta)

lemma check_limiter_ok:
  assumes "limiter_ok l"
  shows "limiter_ok (snd (check key now created l))"
proof (cases "rl_enabled (rl_config l)")
  case True
  have "bucket_ok (rl_config l) (snd (try_acquire now (bucket_at l key created)))"
    using bucket_at_ok [OF assms] by (rule try_acquire_ok(1))
  with assms True show ?thesis
    by (auto simp: limiter_ok_def check_enabled hm_simps split: if_splits)
qed (use assms in \<open>simp add: check_def\<close>)

section \<open>Sequences of checks\<close>

text \<open>A sequence of calls: the key and the two clock readings of each.\<close>

type_synonym check_event = "string \<times> instant \<times> instant"

fun check_run :: "rate_limiter \<Rightarrow> check_event list \<Rightarrow> bool list \<times> rate_limiter" where
  "check_run l [] = ([], l)"
| "check_run l ((key, now, created) # es) =
     (let (ok, l1) = check key now created l; (oks, l2) = check_run l1 es in (ok # oks, l2))"

lemma check_run_ok: "limiter_ok l \<Longrightarrow> limiter_ok (snd (check_run l es))"
  by (induction es arbitrary: l) (auto simp: Let_def split_beta check_limiter_ok)

lemma check_run_config: "rl_config (snd (check_run l es)) = rl_config l"
  by (induction es arbitrary: l) (auto simp: Let_def split_beta)

lemma limiter_new_ok: "limiter_ok (rate_limiter_new cfg)"
  by (simp add: limiter_ok_def rate_limiter_new_def hm_simps)

lemma limiter_tokens:
  assumes "limiter_ok l" and "hm_get (buckets l) key = Some b" and "rl_config l = cfg"
  shows "0 \<le> tokens b \<and> tokens b \<le> f64_of_nat (unat (burst_size cfg))"
proof -
  have "bucket_ok cfg b" using assms by (auto simp: limiter_ok_def)
  then show ?thesis by (auto simp: bucket_ok_def f64_of_u32 f64_ops f64_rep_def)
qed

text \<open>Whatever the sequence of calls and however long the gaps between them, no bucket of a
  limiter ever holds less than zero or more than the burst size.\<close>

lemma token_bounds:
  assumes "hm_get (buckets (snd (check_run (rate_limiter_new cfg) es))) key = Some b"
  shows "0 \<le> tokens b \<and> tokens b \<le> f64_of_nat (unat (burst_size cfg))"
  using limiter_tokens [OF check_run_ok [OF limiter_new_ok] assms]
  by (simp add: check_run_config rate_limiter_new_def)

text \<open>Two limiters that agree on one key give that key the same answers.\<close>

definition agree_on :: "string \<Rightarrow> rate_limiter \<Rightarrow> rate_limiter \<Rightarrow> bool" where
  "agree_on key l l' \<longleftrightarrow>
     rl_config l = rl_config l' \<and> hm_get (buckets l) key = hm_get (buckets l') key"

lemma agree_check_same:
  assumes "agree_on key l l'"
  shows "fst (check key now created l) = fst (check key now created l')"
    and "agree_on key (snd (check key now created l)) (snd (check key now created l'))"
  using assms by (auto simp: agree_on_def check_def Let_def split_beta hm_simps)

lemma agree_check_other:
  assumes "agree_on key l l'" "key' \<noteq> key"
  shows "agree_on key (snd (check key' now created l)) l'"
  using assms by (auto simp: agree_on_def check_def Let_def split_beta hm_simps)

lemma check_run_agree:
  assumes "agree_on key l l'"
  shows "map snd (filter (\<lambda>(e, ok). fst e = key) (zip es (fst (check_run l es)))) =
         fst (check_run l' (filter (\<lambda>e. fst e = key) es))"
  using assms
proof (induction es arbitrary: l l')
  case (Cons e es)
  obtain k now created where e: "e = (k, now, created)" by (cases e)
  show ?case
  proof (cases "k = key")
    case True
    with Cons.IH [OF agree_check_same(2) [OF Cons.prems, of now created]]
      agree_check_same(1) [OF Cons.prems, of now created]
    show ?thesis by (simp add: e Let_def split_beta)
  next
    case False
    with Cons.IH [OF agree_check_other [OF Cons.prems False, of now created]]
    show ?thesis by (simp add: e Let_def split_beta)
  qed
qed simp

text \<open>Callers do not affect one another: in any interleaving of calls, the answers one key
  gets are those it would get if the calls of all other keys were left out.\<close>

lemma rate_limit_isolation:
  "map snd (filter (\<lambda>(e, ok). fst e = key) (zip es (fst (check_run l es)))) =
   fst (check_run l (filter (\<lambda>e. fst e = key) es))"
  by (rule check_run_agree) (simp add: agree_on_def)

text \<open>While no time passes a bucket is drained one token at a time.\<close>

lemma refill_no_time: "now \<le> last_refill b \<Longrightarrow> refill now b = b"
proof -
  assume "now \<le> last_refill b"
  then have z: "elapsed now (last_refill b) = 0" by (simp add: elapsed_def)
  have "as_secs_f64 0 = 0"
    using f64_of_nat_small [of 0] f64_of_rat_rep [of 0]
    by (simp add: as_secs_f64_def f64_ops)
  then show ?thesis unfolding refill_def z by (simp add: f64_ops Let_def)
qed

lemma try_acquire_no_time:
  assumes "now \<le> last_refill b" "tokens b = Fin (of_nat k)" "k < 2 ^ 53"
  shows "try_acquire now b = (if 0 < k then (True, b\<lparr>tokens := Fin (of_nat (k - 1))\<rparr>) else (False, b))"
proof (cases k)
  case 0
  with assms show ?thesis
    by (simp add: try_acquire_def refill_no_time f64_ops)
next
  case (Suc j)
  have "(of_nat k :: rat) < of_nat (2 ^ 53)" using assms(3) by (simp only: of_nat_less_iff)
  then have "Fin (of_nat k) - 1 = Fin (of_nat k - 1)"
    using assms(3) Suc by (intro minus_1_exact f64_rep_nat) simp_all
  with assms Suc show ?thesis
    by (simp add: try_acquire_def refill_no_time f64_ops Let_def)
qed

lemma check_run_drain:
  assumes en: "rl_enabled (rl_config l)"
    and b: "hm_get (buckets l) key = Some b" "tokens b = Fin (of_nat k)" "k < 2 ^ 53"
    and nt: "\<forall>(n, c) \<in> set ts. n \<le> last_refill b"
  shows "fst (check_run l (map (\<lambda>(n, c). (key, n, c)) ts)) =
         replicate (min k (length ts)) True @ replicate (length ts - k) False"
  using assms
proof (induction ts arbitrary: l b k)
  case (Cons t ts)
  obtain now created where t: "t = (now, created)" by (cases t)
  let ?r = "try_acquire now b" and ?l = "snd (check key now created l)"
  have r: "?r = (if 0 < k then (True, b\<lparr>tokens := Fin (of_nat (k - 1))\<rparr>) else (False, b))"
    using Cons.prems t by (intro try_acquire_no_time) auto
  have chk: "fst (check key now created l) = (0 < k)" "hm_get (buckets ?l) key = Some (snd ?r)"
    using Cons.prems r by (simp_all add: check_enabled bucket_at_def hm_simps)
  have "fst (check_run ?l (map (\<lambda>(n, c). (key, n, c)) ts)) =
      replicate (min (k - 1) (length ts)) True @ replicate (length ts - (k - 1)) False"
    using Cons.prems chk(2) r by (intro Cons.IH [of ?l "snd ?r" "k - 1"]) auto
  then show ?case
    using chk(1) t by (cases k) (auto simp: Let_def split_beta)
qed simp

text \<open>C11: With the limiter enabled, from a fresh bucket and while no time passes, exactly the first \<open>burst_size\<close> calls are
  admitted and every later one is refused.\<close>

theorem burst_exact:
  assumes "rl_enabled (rl_config l)" and "hm_get (buckets l) key = None"
    and "\<forall>(n, c) \<in> set ((now, created) # ts). n \<le> created"
  shows "fst (check_run l (map (\<lambda>(n, c). (key, n, c)) ((now, created) # ts))) =
         (let burst = unat (burst_size (rl_config l)); calls = Suc (length ts)
          in replicate (min burst calls) True @ replicate (calls - burst) False)"
proof -
  let ?l = "l\<lparr>buckets := hm_insert key (bucket_at l key created) (buckets l)\<rparr>"
  let ?n = "unat (burst_size (rl_config l))"
  have same: "check key now created l = check key now created ?l"
    using assms(1,2)
    by (simp add: check_enabled bucket_at_def hm_simps) (simp add: hm_insert_def)
  have "fst (check_run ?l (map (\<lambda>(n, c). (key, n, c)) ((now, created) # ts))) =
      replicate (min ?n (length ((now, created) # ts))) True
      @ replicate (length ((now, created) # ts) - ?n) False"
    using assms unsigned_less [of "burst_size (rl_config l)", where ?'a = nat]
    by (intro check_run_drain [where b = "bucket_at l key created"])
      (simp_all add: hm_simps bucket_at_def bucket_new_def f64_of_nat_u32)
  then show ?thesis
    by (simp only: list.map prod.case check_run.simps same Let_def list.size add_0_right
        add_Suc_right)
qed

theorem burst_exact_witness:
  "fst (check_run (rate_limiter_new \<lparr>rl_enabled = True, requests_per_second = 1, burst_size = 2\<rparr>)
     (map (\<lambda>(n, c). (''team-a'', n, c)) [(5, 6), (6, 7), (6, 9)])) = [True, True, False]"
proof -
  let ?l = "rate_limiter_new \<lparr>rl_enabled = True, requests_per_second = 1, burst_size = 2\<rparr>"
  have two: "unat (2 :: u32) = 2" by simp
  have "fst (check_run ?l (map (\<lambda>(n, c). (''team-a'', n, c)) ((5, 6) # [(6, 7), (6, 9)]))) =
     (let burst = unat (burst_size (rl_config ?l)); calls = Suc (length [(6::nat, 7::nat), (6, 9)])
      in replicate (min burst calls) True @ replicate (calls - burst) False)"
    by (rule burst_exact) (simp_all add: rate_limiter_new_def hm_simps)
  also have "\<dots> = [True, True, False]"
    by (simp add: rate_limiter_new_def two Let_def)
  finally show ?thesis .
qed

text \<open>One second is at least one token at any positive rate.\<close>

lemma as_secs_f64_ge_1:
  assumes "1000000000 \<le> d"
  shows "1 \<le> as_secs_f64 d"
proof -
  let ?s = "of_nat (d div 1000000000) :: rat" and ?n = "of_nat (d mod 1000000000) / 1000000000 :: rat"
  have "1 \<le> d div 1000000000" using assms by linarith
  then have "(of_nat 1 :: rat) \<le> of_nat (d div 1000000000)" by (simp only: of_nat_le_iff)
  then have "1 \<le> f64_mag ?s" by (intro f64r.rnd_ge_1) simp
  moreover have "0 \<le> f64_mag ?n" by simp
  ultimately have "1 \<le> f64_mag (f64_mag ?s + f64_mag ?n)" by (intro f64r.rnd_ge_1) linarith
  with \<open>1 \<le> f64_mag ?s\<close> show ?thesis
    by (simp add: as_secs_f64_def f64_of_nat_def f64_ops f64_of_rat_nonneg)
qed

lemma f64_mul_ge_1: "1 \<le> x \<Longrightarrow> 1 \<le> r \<Longrightarrow> 1 \<le> x * Fin r"
proof (cases x)
  case (Fin a)
  assume "1 \<le> x" "1 \<le> r"
  with Fin have ar: "1 \<le> a" "1 \<le> a * r"
    using mult_mono [of 1 a 1 r] by (auto simp: f64_ops)
  then have "1 \<le> f64_mag (a * r)" by (intro f64r.rnd_ge_1)
  with Fin ar show ?thesis by (simp add: f64_ops f64_of_rat_nonneg)
qed (auto simp: f64_ops Let_def sgn_if)

lemma refill_min_ge_1:
  assumes "f64_rep t" "1 \<le> m" "1 \<le> y"
  shows "1 \<le> f64_min (Fin t + y) (Fin m)"
proof (cases y)
  case (Fin a)
  with assms have a: "1 \<le> t + a" by (auto simp: f64_ops f64_rep_def)
  then have "1 \<le> f64_mag (t + a)" by (rule f64r.rnd_ge_1)
  with Fin a assms show ?thesis by (auto simp: f64_ops f64_of_rat_nonneg)
qed (use assms in \<open>auto simp: f64_ops\<close>)

text \<open>C34: Refused callers recover: in a limiter within its invariant, with a positive rate and burst size, a call made a second or
  more after the bucket was last refilled is admitted.\<close>

theorem refill_admits:
  assumes "limiter_ok l" and "1 \<le> unat (burst_size (rl_config l))"
    and "1 \<le> unat (requests_per_second (rl_config l))"
    and "hm_get (buckets l) key = Some b" and "last_refill b + 1000000000 \<le> now"
  shows "fst (check key now created l)"
proof (cases "rl_enabled (rl_config l)")
  case True
  let ?cfg = "rl_config l"
  have ok: "bucket_ok ?cfg b" using assms(1,4) by (auto simp: limiter_ok_def)
  then obtain t where t: "tokens b = Fin t" "f64_rep t"
    and mx: "max_tokens b = Fin (u32_rat (burst_size ?cfg))"
    and r: "refill_rate b = Fin (u32_rat (requests_per_second ?cfg))"
    by (auto simp: bucket_ok_def)
  have ge: "1 \<le> u32_rat w" if "1 \<le> unat w" for w
  proof -
    from that have "(of_nat 1 :: rat) \<le> of_nat (unat w)" by (simp only: of_nat_le_iff)
    then show ?thesis by (simp add: u32_rat_def)
  qed
  let ?el = "as_secs_f64 (elapsed now (last_refill b))"
  have el: "1 \<le> ?el" using assms(5) by (intro as_secs_f64_ge_1) (simp add: elapsed_def)
  then have "0 < ?el" by (cases ?el) (auto simp: f64_ops)
  moreover have "1 \<le> f64_min (Fin t + ?el * refill_rate b) (max_tokens b)"
    unfolding mx r using t ge assms(2,3) el by (intro refill_min_ge_1 f64_mul_ge_1) auto
  ultimately have "1 \<le> tokens (refill now b)" using t by (simp add: refill_def Let_def)
  then show ?thesis
    using True assms(4) by (simp add: check_enabled bucket_at_def try_acquire_def Let_def)
qed (simp add: check_def)

theorem refill_admits_witness:
  "let l = snd (check ''a'' 5 5 (rate_limiter_new
        \<lparr>rl_enabled = True, requests_per_second = 3, burst_size = 2\<rparr>))
   in limiter_ok l \<and> fst (check ''a'' 1000000005 7 l)"
proof -
  let ?l = "rate_limiter_new \<lparr>rl_enabled = True, requests_per_second = 3, burst_size = 2\<rparr>"
  let ?l' = "snd (check ''a'' 5 5 ?l)" and ?b = "snd (try_acquire 5 (bucket_at ?l ''a'' 5))"
  have ok: "limiter_ok ?l'" by (intro check_limiter_ok limiter_new_ok)
  have get: "hm_get (buckets ?l') ''a'' = Some ?b"
    by (simp add: check_enabled rate_limiter_new_def hm_simps)
  have "bucket_at ?l ''a'' 5 = bucket_new (f64_of_nat 2) (f64_of_nat 3) 5"
    by (simp add: bucket_at_def rate_limiter_new_def hm_simps)
  then have "last_refill ?b = 5"
    by (simp add: try_acquire_def Let_def refill_no_time bucket_new_def)
  then have "fst (check ''a'' 1000000005 7 ?l')"
    by (intro refill_admits [OF ok _ _ get]) (simp_all add: rate_limiter_new_def)
  with ok show ?thesis by (simp only: Let_def simp_thms)
qed

end
