(* ===== verification/Fed_Server.thy ===== *)
theory Fed_Server
  imports Fed_Router Fed_Session Fed_Rbac Fed_RateLimit
begin

text \<open>
  The MCP endpoint (\<open>src/src/server.rs\<close>): the dispatch of JSON-RPC methods, the HTTP handlers with
  their guards, the stdio loop and the status page.  What is reported to the metrics and the audit log is in \<open>Fed_Observe\<close>.
\<close>

section \<open>State and libraries\<close>

text \<open>\<open>FederationState\<close>; \<open>fd_tasks\<close> are the background refreshes spawned and not yet run.\<close>

record 'tx federation =
  fd_registry :: registry
  fd_tool_cache_ttl :: duration
  fd_sessions :: session_manager
  fd_allowed_origins :: "string list"
  fd_rate_limiter :: rate_limiter
  fd_notifications :: "'tx broker"
  fd_tasks :: "nat list"

text \<open>
  The outside world as the server sees it: the leaves' side of it, the token library, the system
  clock, the reading of the monotonic clock made when a bucket is created (a little after the one
  made at the start of the check), random UUIDs, Unicode lower-casing, the JSON printer, the check that a string is a header
  value, and channels.
\<close>

record ('w, 'tx) srv =
  sv_env :: "'w env"
  sv_jwt :: jwt_lib
  sv_since_epoch :: "'w \<Rightarrow> duration option"
  sv_created :: "'w \<Rightarrow> instant"
  sv_uuid :: "'w \<Rightarrow> string \<times> 'w"
  sv_lower :: "string \<Rightarrow> string"
  sv_to_string :: "json \<Rightarrow> string"
  sv_header_ok :: "string \<Rightarrow> bool"
  sv_channel :: "nat \<Rightarrow> 'w \<Rightarrow> ('tx \<times> 'tx) \<times> 'w"

abbreviation sv_unix :: "('w, 'tx) srv \<Rightarrow> 'w \<Rightarrow> u64" where
  "sv_unix sv w \<equiv> unix_now (sv_since_epoch sv w)"

type_synonym headers = "string \<Rightarrow> string option"

datatype reply_body =
    EmptyBody
  | TextBody string
  | JsonBody json_rpc_response
  | SseBody string
  | SseSubscription string

record http_reply =
  rp_status :: u16
  rp_session :: "string option"
  rp_body :: reply_body

definition text_reply :: "u16 \<Rightarrow> string \<Rightarrow> http_reply" where
  "text_reply status t = \<lparr>rp_status = status, rp_session = None, rp_body = TextBody t\<rparr>"

section \<open>Headers\<close>

definition MCP_SESSION_HEADER :: string where
  "MCP_SESSION_HEADER = ''mcp-session-id''"

definition accepts_sse :: "headers \<Rightarrow> bool" where
  "accepts_sse h =
     (case h ''accept'' of
        None \<Rightarrow> False
      | Some v \<Rightarrow> list_ex (\<lambda>s. prefix ''text/event-stream'' (str_trim s)) (split_on (CHR '','') v))"

definition extract_session_id :: "headers \<Rightarrow> string option" where
  "extract_session_id h = h MCP_SESSION_HEADER"

definition extract_client_info :: "json_rpc_response \<Rightarrow> json option" where
  "extract_client_info response = Option.bind (rs_result response) (\<lambda>r. json_get r ''clientInfo'')"

definition check_origin :: "string list \<Rightarrow> headers \<Rightarrow> http_reply + unit" where
  "check_origin allowed h =
     (if allowed = [] then Inr ()
      else
        let origin = (case h ''origin'' of None \<Rightarrow> [] | Some o' \<Rightarrow> o')
        in if origin = [] \<or> \<not> list_ex (\<lambda>x. x = origin) allowed
           then Inl (text_reply 403 ''origin not allowed'') else Inr ())"

section \<open>Methods\<close>

definition handle_initialize :: "json_rpc_request \<Rightarrow> json_rpc_response" where
  "handle_initialize request =
     success_response request
       (json_obj
          [(''protocolVersion'', JString ''2025-11-25''),
           (''capabilities'', json_obj [(''tools'', json_obj []), (''resources'', json_obj []),
              (''prompts'', json_obj []), (''logging'', json_obj []), (''sampling'', json_obj [])]),
           (''serverInfo'', json_obj [(''name'', JString ''mcp-federation''),
                                      (''version'', JString PKG_VERSION)])])"

definition VALID_LOG_LEVELS :: "string list" where
  "VALID_LOG_LEVELS =
     [''debug'', ''info'', ''notice'', ''warning'', ''error'', ''critical'', ''alert'', ''emergency'']"

definition handle_logging_set_level ::
  "json_rpc_request \<Rightarrow> string option \<Rightarrow> 'tx federation \<times> 'w \<Rightarrow> json_rpc_response \<times> 'tx federation \<times> 'w" where
  "handle_logging_set_level request session_id s =
     (case json_get_str (rq_params request) ''level'' of
        None \<Rightarrow> (error_response request (-32602)
                   (''missing required '' @ [CHR 0x27] @ ''level'' @ [CHR 0x27] @ '' parameter''), s)
      | Some level \<Rightarrow>
          if level \<notin> set VALID_LOG_LEVELS then
            (error_response request (-32602)
               (''invalid log level '' @ [CHR 0x27] @ level @ [CHR 0x27] @ ''; expected one of: ''
                @ str_join '', '' VALID_LOG_LEVELS), s)
          else
            (success_response request (json_obj []),
             case session_id of
               Some sid \<Rightarrow>
                 ((fst s)\<lparr>fd_sessions := snd (set_log_level sid level (fd_sessions (fst s)))\<rparr>, snd s)
             | None \<Rightarrow> s))"

definition handle_sampling_create_message :: "json_rpc_request \<Rightarrow> json_rpc_response" where
  "handle_sampling_create_message request =
     error_response request (-32601)
       (''sampling not supported by this federation server '' @ [CHR 0xE2, CHR 0x80, CHR 0x94]
        @ '' connect directly to a leaf server that supports sampling'')"

definition tool_allowed :: "request_context \<Rightarrow> string \<Rightarrow> bool" where
  "tool_allowed ctx namespaced =
     (case parse_namespaced_name namespaced of
        Some (alias, _) \<Rightarrow> allows_alias ctx alias | None \<Rightarrow> True)"

definition handle_tools_list ::
  "('w, 'tx) srv \<Rightarrow> json_rpc_request \<Rightarrow> request_context \<Rightarrow> 'tx federation \<times> 'w
   \<Rightarrow> json_rpc_response \<times> 'tx federation \<times> 'w" where
  "handle_tools_list sv request ctx s =
     (let (tools, spawned) =
            aggregated_tools (fd_tool_cache_ttl (fst s)) (\<lambda>a. clock (sv_env sv) (snd s)) (fd_registry (fst s));
          tools = (if allowed_servers ctx \<noteq> None
                   then filter (\<lambda>t. case json_get_str t ''name'' of
                                      Some name \<Rightarrow> tool_allowed ctx name | None \<Rightarrow> True) tools
                   else tools)
      in (success_response request (json_obj [(''tools'', JArray tools)]),
          ((fst s)\<lparr>fd_tasks := fd_tasks (fst s) @ spawned\<rparr>, snd s)))"

text \<open>A router call on the registry, answered as a JSON-RPC response.\<close>

definition respond_route ::
  "json_rpc_request \<Rightarrow> (registry \<times> 'w, json) eff \<Rightarrow> 'tx federation \<times> 'w
   \<Rightarrow> json_rpc_response \<times> 'tx federation \<times> 'w" where
  "respond_route request route s =
     (let (res, (r, w)) = route (fd_registry (fst s), snd s)
      in ((case res of
             Inr v \<Rightarrow> success_response request v
           | Inl e \<Rightarrow> error_response request (-32000) (error_to_string e)),
          ((fst s)\<lparr>fd_registry := r\<rparr>, w)))"

definition param_str :: "json_rpc_request \<Rightarrow> string \<Rightarrow> string" where
  "param_str request k =
     (case json_as_str (json_index (rq_params request) k) of Some v \<Rightarrow> v | None \<Rightarrow> [])"

definition handle_tools_call ::
  "('w, 'tx) srv \<Rightarrow> json_rpc_request \<Rightarrow> request_context \<Rightarrow> 'tx federation \<times> 'w
   \<Rightarrow> json_rpc_response \<times> 'tx federation \<times> 'w" where
  "handle_tools_call sv request ctx s =
     (let tool_name = param_str request ''name'';
          arguments = json_index (rq_params request) ''arguments'';
          alias = (case parse_namespaced_name tool_name of Some (a, _) \<Rightarrow> a | None \<Rightarrow> ''unknown'')
      in if parse_namespaced_name tool_name \<noteq> None \<and> \<not> allows_alias ctx alias then
           (error_response request (-32000)
              (''access denied: client is not permitted to use leaf '' @ [CHR 0x27] @ alias @ [CHR 0x27]), s)
         else respond_route request (route_tool_call (sv_env sv) (sv_lower sv) tool_name arguments) s)"

definition handle_resources_list ::
  "json_rpc_request \<Rightarrow> 'tx federation \<times> 'w \<Rightarrow> json_rpc_response \<times> 'tx federation \<times> 'w" where
  "handle_resources_list request s =
     (success_response request
        (json_obj [(''resources'', JArray (aggregated_resources (fd_registry (fst s))))]), s)"

definition handle_resources_read ::
  "('w, 'tx) srv \<Rightarrow> json_rpc_request \<Rightarrow> 'tx federation \<times> 'w
   \<Rightarrow> json_rpc_response \<times> 'tx federation \<times> 'w" where
  "handle_resources_read sv request s =
     respond_route request (route_resource_read (sv_env sv) (param_str request ''uri'')) s"

definition handle_prompts_list ::
  "json_rpc_request \<Rightarrow> 'tx federation \<times> 'w \<Rightarrow> json_rpc_response \<times> 'tx federation \<times> 'w" where
  "handle_prompts_list request s =
     (success_response request
        (json_obj [(''prompts'', JArray (aggregated_prompts (fd_registry (fst s))))]), s)"

definition handle_prompts_get ::
  "('w, 'tx) srv \<Rightarrow> json_rpc_request \<Rightarrow> 'tx federation \<times> 'w
   \<Rightarrow> json_rpc_response \<times> 'tx federation \<times> 'w" where
  "handle_prompts_get sv request s =
     respond_route request
       (route_prompt_get (sv_env sv) (param_str request ''name'')
          (json_index (rq_params request) ''arguments'')) s"

definition dispatch ::
  "('w, 'tx) srv \<Rightarrow> json_rpc_request \<Rightarrow> string option \<Rightarrow> request_context \<Rightarrow> 'tx federation \<times> 'w
   \<Rightarrow> json_rpc_response \<times> 'tx federation \<times> 'w" where
  "dispatch sv request session_id ctx s =
     (let m = rq_method request
      in if m = ''initialize'' then (handle_initialize request, s)
         else if m = ''notifications/initialized'' then (success_response request (json_obj []), s)
         else if m = ''tools/list'' then handle_tools_list sv request ctx s
         else if m = ''tools/call'' then handle_tools_call sv request ctx s
         else if m = ''resources/list'' then handle_resources_list request s
         else if m = ''resources/read'' then handle_resources_read sv request s
         else if m = ''prompts/list'' then handle_prompts_list request s
         else if m = ''prompts/get'' then handle_prompts_get sv request s
         else if m = ''logging/setLevel'' then handle_logging_set_level request session_id s
         else if m = ''sampling/createMessage'' then (handle_sampling_create_message request, s)
         else (method_not_found request, s))"

section \<open>HTTP handlers\<close>

text \<open>The session check of \<open>POST /mcp\<close>: the error reply, or the state with the session touched.\<close>

definition session_gate ::
  "('w, 'tx) srv \<Rightarrow> json_rpc_request \<Rightarrow> string option \<Rightarrow> 'tx federation \<times> 'w
   \<Rightarrow> http_reply + 'tx federation" where
  "session_gate sv request incoming s =
     (if rq_method request = ''initialize'' then Inr (fst s)
      else case incoming of
             None \<Rightarrow> Inr (fst s)
           | Some sid \<Rightarrow>
               if \<not> validate_session (sv_jwt sv) (sv_unix sv (snd s)) (clock (sv_env sv) (snd s)) sid
                      (fd_sessions (fst s))
               then Inl (text_reply 404 ''session expired or unknown'')
               else Inr ((fst s)\<lparr>fd_sessions :=
                      touch_session (clock (sv_env sv) (snd s)) sid (fd_sessions (fst s))\<rparr>))"

text \<open>The new session of a successful \<open>initialize\<close>.\<close>

definition open_session ::
  "('w, 'tx) srv \<Rightarrow> json_rpc_request \<Rightarrow> json_rpc_response \<Rightarrow> 'tx federation \<times> 'w
   \<Rightarrow> string option \<times> 'tx federation \<times> 'w" where
  "open_session sv request response s =
     (if rq_method request = ''initialize'' \<and> rs_error response = None then
        (let (uuid, w) = sv_uuid sv (snd s);
             (sid, m) = create_session (sv_jwt sv) uuid (sv_unix sv w) (clock (sv_env sv) w)
                          (extract_client_info response) (fd_sessions (fst s))
         in (Some sid, ((fst s)\<lparr>fd_sessions := m\<rparr>, w)))
      else (None, s))"

definition handle_mcp ::
  "('w, 'tx) srv \<Rightarrow> headers \<Rightarrow> request_context option \<Rightarrow> json_rpc_request \<Rightarrow> 'tx federation \<times> 'w
   \<Rightarrow> http_reply \<times> 'tx federation \<times> 'w" where
  "handle_mcp sv h ctx request s =
     (case check_origin (fd_allowed_origins (fst s)) h of
        Inl resp \<Rightarrow> (resp, s)
      | Inr _ \<Rightarrow>
          (let incoming = extract_session_id h
           in case session_gate sv request incoming s of
                Inl resp \<Rightarrow> (resp, s)
              | Inr st \<Rightarrow>
                  (let request_ctx = (case ctx of Some c \<Rightarrow> c | None \<Rightarrow> anonymous_ctx);
                       now = clock (sv_env sv) (snd s);
                       (ok, limiter) =
                         check (client_label request_ctx) now (sv_created sv (snd s)) (fd_rate_limiter st);
                       s1 = (st\<lparr>fd_rate_limiter := limiter\<rparr>, snd s)
                   in if \<not> ok then
                        (\<lparr>rp_status = 429, rp_session = None,
                          rp_body = JsonBody (error_response request (-32000) ''rate limit exceeded'')\<rparr>, s1)
                      else
                        (let (response, s2) = dispatch sv request incoming request_ctx s1;
                             (new_session, s3) = open_session sv request response s2;
                             header = (case new_session of
                                         Some sid \<Rightarrow> if sv_header_ok sv sid then Some sid else None
                                       | None \<Rightarrow> None)
                         in if accepts_sse h then
                              (\<lparr>rp_status = 200, rp_session = header,
                                rp_body = SseBody (sv_to_string sv (json_rpc_response_to_json response))\<rparr>, s3)
                            else
                              (\<lparr>rp_status = 200, rp_session = header, rp_body = JsonBody response\<rparr>, s3)))))"

definition delete_mcp ::
  "headers \<Rightarrow> 'tx federation \<times> 'w \<Rightarrow> http_reply \<times> 'tx federation \<times> 'w" where
  "delete_mcp h s =
     (case check_origin (fd_allowed_origins (fst s)) h of
        Inl resp \<Rightarrow> (resp, s)
      | Inr _ \<Rightarrow>
          (case extract_session_id h of
             None \<Rightarrow> (text_reply 400 ''missing Mcp-Session-Id header'', s)
           | Some sid \<Rightarrow>
               (let (removed, m) = terminate_session sid (fd_sessions (fst s));
                    s' = ((fst s)\<lparr>fd_sessions := m\<rparr>, snd s)
                in if removed then (\<lparr>rp_status = 200, rp_session = None, rp_body = EmptyBody\<rparr>, s')
                   else (text_reply 404 ''session expired or unknown'', s'))))"

text \<open>\<open>GET /mcp\<close>: the reply streams the notifications of the new subscription.\<close>

definition get_mcp ::
  "('w, 'tx) srv \<Rightarrow> headers \<Rightarrow> 'tx federation \<times> 'w \<Rightarrow> http_reply \<times> 'tx federation \<times> 'w" where
  "get_mcp sv h s =
     (case check_origin (fd_allowed_origins (fst s)) h of
        Inl resp \<Rightarrow> (resp, s)
      | Inr _ \<Rightarrow>
          (case extract_session_id h of
             None \<Rightarrow> (text_reply 400 ''missing Mcp-Session-Id header'', s)
           | Some sid \<Rightarrow>
               if \<not> validate_session (sv_jwt sv) (sv_unix sv (snd s)) (clock (sv_env sv) (snd s)) sid
                      (fd_sessions (fst s))
               then (text_reply 404 ''session expired or unknown'', s)
               else
                 (let m = touch_session (clock (sv_env sv) (snd s)) sid (fd_sessions (fst s));
                      (uuid, w1) = sv_uuid sv (snd s);
                      ((sub_id, rx), b, w2) = subscribe (sv_channel sv) uuid (fd_notifications (fst s)) w1
                  in (\<lparr>rp_status = 200, rp_session = None, rp_body = SseSubscription sub_id\<rparr>,
                      ((fst s)\<lparr>fd_sessions := m, fd_notifications := b\<rparr>, w2)))))"

text \<open>Dropping the stream of \<open>GET /mcp\<close>: the guard's task removes the subscription.\<close>

definition drop_subscription :: "string \<Rightarrow> 'tx federation \<times> 'w \<Rightarrow> 'tx federation \<times> 'w" where
  "drop_subscription sub_id s =
     ((fst s)\<lparr>fd_notifications := snd (unsubscribe sub_id (fd_notifications (fst s)))\<rparr>, snd s)"

section \<open>Stdio\<close>

text \<open>
  \<open>run_stdio\<close> on the lines it reads (\<open>Inl\<close>: the read failed, which ends the loop); \<open>parse\<close> is the
  JSON reader for a request.  The result is what it prints.
\<close>

fun run_stdio ::
  "('w, 'tx) srv \<Rightarrow> (string \<Rightarrow> string + json_rpc_request) \<Rightarrow> (string + string) list \<Rightarrow> 'tx federation \<times> 'w
   \<Rightarrow> string list \<times> 'tx federation \<times> 'w" where
  "run_stdio sv parse [] s = ([], s)"
| "run_stdio sv parse (Inl e # lines) s = ([], s)"
| "run_stdio sv parse (Inr line # lines) s =
     (if str_trim line = [] then run_stdio sv parse lines s
      else case parse line of
             Inl e \<Rightarrow>
               (let err = json_obj [(''jsonrpc'', JString ''2.0''), (''id'', JNull),
                      (''error'', json_obj [(''code'', JNum (JInt (-32700))),
                                            (''message'', JString (''Parse error: '' @ e))])];
                    (out, s') = run_stdio sv parse lines s
                in (sv_to_string sv err # out, s'))
           | Inr request \<Rightarrow>
               (let (response, s1) = dispatch sv request None anonymous_ctx s;
                    (out, s') = run_stdio sv parse lines s1
                in (sv_to_string sv (json_rpc_response_to_json response) # out, s')))"

section \<open>The status page\<close>

definition html_escape :: "string \<Rightarrow> string" where
  "html_escape s =
     str_replace_char (CHR 0x27) ''&#39;''
       (str_replace_char (CHR 0x22) ''&quot;''
          (str_replace_char (CHR ''>'') ''&gt;''
             (str_replace_char (CHR ''<'') ''&lt;''
                (str_replace_char (CHR ''&'') ''&amp;'' s))))"

definition status_row :: "instant \<Rightarrow> leaf_entry \<Rightarrow> string" where
  "status_row now e =
     (let (label, color) = (case health e of
            Healthy \<Rightarrow> (''healthy'', ''#2e7d32'')
          | Unhealthy \<Rightarrow> (''unhealthy'', ''#c62828'')
          | Unknown \<Rightarrow> (''unknown'', ''#757575''));
          tags = (if sc_tags (le_config e) = [] then ''-''
                  else html_escape (str_join '', '' (sc_tags (le_config e))));
          last_check = (case last_health_check e of
                          Some t \<Rightarrow> show_nat (as_secs (elapsed now t)) @ ''s ago'' | None \<Rightarrow> ''never'')
      in ''<tr><td>'' @ html_escape (sc_alias (le_config e)) @ ''</td><td><code>''
         @ html_escape (sc_url (le_config e)) @ ''</code></td><td style='' @ [CHR 0x22] @ ''color:''
         @ color @ '';font-weight:bold'' @ [CHR 0x22] @ ''>'' @ label @ ''</td><td>''
         @ show_nat (length (cached_tools e)) @ ''</td><td>'' @ tags @ ''</td><td>'' @ last_check
         @ ''</td></tr>'')"

definition status_head :: "string list" where
  "status_head =
     [''<!DOCTYPE html>'',
      ''<html lang='' @ [CHR 0x22] @ ''en'' @ [CHR 0x22] @ ''><head>'',
      ''<meta charset='' @ [CHR 0x22] @ ''utf-8'' @ [CHR 0x22] @ ''>'',
      ''<title>mcp-federation status</title>'',
      ''<style>'',
      ''body { font-family: -apple-system, system-ui, sans-serif; margin: 2rem; color: #212121; }'',
      ''h1 { margin-bottom: 0.25rem; }'',
      ''.meta { color: #666; margin-bottom: 1.5rem; }'',
      ''table { border-collapse: collapse; width: 100%; }'',
      ''th, td { padding: 0.5rem 0.75rem; border-bottom: 1px solid #ddd; text-align: left; }'',
      ''th { background: #f5f5f5; }'',
      ''code { font-family: SFMono-Regular, Menlo, monospace; font-size: 0.9em; }'',
      ''</style>'',
      ''</head><body>'',
      ''<h1>mcp-federation</h1>'']"

definition render_status_html :: "(nat \<Rightarrow> instant) \<Rightarrow> registry \<Rightarrow> string" where
  "render_status_html now r =
     (let leaves = all_leaves r;
          rows = concat (map (\<lambda>a. status_row (now a) (entry r a)) leaves)
      in str_join [LF]
           (status_head
            @ [''<div class='' @ [CHR 0x22] @ ''meta'' @ [CHR 0x22] @ ''>version '' @ PKG_VERSION
               @ '' &middot; '' @ show_nat (length leaves) @ '' leaf server(s)</div>'',
               ''<table>'',
               ''<thead><tr>'',
               ''<th>Alias</th><th>URL</th><th>Health</th><th>Tools</th><th>Tags</th><th>Last check</th>'',
               ''</tr></thead>'',
               ''<tbody>'',
               rows,
               ''</tbody>'',
               ''</table>'',
               ''</body></html>'']))"

section \<open>Facts: the protocol\<close>

lemma respond_route_reply: "reply_to request (fst (respond_route request route s))"
  by (simp add: respond_route_def Let_def split_beta split: sum.split)

lemma respond_route_state:
  "fst (snd (respond_route request route s)) =
     (fst s)\<lparr>fd_registry := fst (snd (route (fd_registry (fst s), snd s)))\<rparr>"
  "snd (snd (respond_route request route s)) = snd (snd (route (fd_registry (fst s), snd s)))"
  by (simp_all add: respond_route_def Let_def split_beta)

lemma reply_to_dispatch: "reply_to request (fst (dispatch sv request sid ctx s))"
  by (simp add: dispatch_def Let_def handle_initialize_def handle_tools_list_def split_beta
      handle_tools_call_def respond_route_reply handle_resources_list_def handle_resources_read_def
      handle_prompts_list_def handle_prompts_get_def handle_logging_set_level_def
      handle_sampling_create_message_def split: option.split)

text \<open>C35: Every request gets a proper reply: whatever the method, the parameters and the state of
  the leaves, the response carries the JSON-RPC version and the id of the request, and either a
  result or an error, never both and never neither.\<close>

theorem dispatch_replies: "reply_to request (fst (dispatch sv request sid ctx s))"
  by (rule reply_to_dispatch)

text \<open>The stdio loop answers in step: it prints exactly one line for each non-blank line it reads
  before the input ends or fails, a parse error included, and none for blank lines.\<close>

lemma stdio_one_reply_per_line:
  "length (fst (run_stdio sv parse lines s)) =
     length (filter (\<lambda>l. str_trim (projr l) \<noteq> []) (takeWhile (Not \<circ> isl) lines))"
proof (induction lines arbitrary: s)
  case (Cons l lines)
  then show ?case by (cases l) (auto simp: Let_def split_beta split: sum.split)
qed simp

section \<open>Facts: requests and the table of leaves\<close>

text \<open>No request of a client adds, removes or reconfigures a leaf.\<close>

lemma respond_route_steady:
  assumes "\<And>p. steady (fst p) (fst (snd (route p)))"
  shows "steady (fd_registry (fst s)) (fd_registry (fst (snd (respond_route request route s))))"
  using assms [of "(fd_registry (fst s), snd s)"] by (simp add: respond_route_state)

lemma dispatch_steady:
  "steady (fd_registry (fst s)) (fd_registry (fst (snd (dispatch sv request sid ctx s))))"
  by (simp add: dispatch_def Let_def handle_tools_list_def split_beta handle_tools_call_def
      respond_route_steady routes_steady handle_resources_list_def handle_resources_read_def
      handle_prompts_list_def handle_prompts_get_def handle_logging_set_level_def split: option.split)

lemma open_session_registry: "fd_registry (fst (snd (open_session sv request response s))) = fd_registry (fst s)"
  by (simp add: open_session_def split_beta)

lemma session_gate_registry: "session_gate sv request incoming s = Inr st \<Longrightarrow> fd_registry st = fd_registry (fst s)"
  by (auto simp: session_gate_def split: if_splits option.splits)

lemma handle_mcp_steady:
  "steady (fd_registry (fst s)) (fd_registry (fst (snd (handle_mcp sv h ctx request s))))"
proof (cases "session_gate sv request (extract_session_id h) s")
  case (Inl resp)
  then show ?thesis by (simp add: handle_mcp_def split: sum.split)
next
  case (Inr st)
  have "steady (fd_registry (fst s)) (fd_registry (fst (snd (dispatch sv request sid c (st\<lparr>fd_rate_limiter := l\<rparr>, w)))))"
    for sid c l w
    using dispatch_steady [of "(st\<lparr>fd_rate_limiter := l\<rparr>, w)" sv request sid c] session_gate_registry [OF Inr]
    by simp
  with Inr session_gate_registry [OF Inr] show ?thesis
    by (simp add: handle_mcp_def Let_def split_beta open_session_registry split: sum.split)
qed

lemma delete_get_registry:
  "fd_registry (fst (snd (delete_mcp h s))) = fd_registry (fst s)"
  "fd_registry (fst (snd (get_mcp sv h s))) = fd_registry (fst s)"
  by (simp_all add: delete_mcp_def get_mcp_def Let_def split_beta split: sum.split option.split)

section \<open>Facts: access control\<close>

definition sample_call :: "string \<Rightarrow> json_rpc_request" where
  "sample_call name =
     \<lparr>rq_jsonrpc = ''2.0'', rq_id = Some (json_nat 7), rq_method = ''tools/call'',
      rq_params = json_obj [(''name'', JString name), (''arguments'', JNull)]\<rparr>"

lemma sample_call_sel [simp]:
  "rq_method (sample_call n) = ''tools/call''" "param_str (sample_call n) ''name'' = n"
  "json_index (rq_params (sample_call n)) ''arguments'' = JNull"
  by (simp_all add: sample_call_def param_str_def json_simps)

text \<open>C12: Listing and calling apply the same policy: a client's call of a tool of the full listing is
  passed on to the router when the tool is in the listing that client is shown, and denied without
  any effect when it is not.\<close>

theorem rbac_list_matches_call:
  assumes "t \<in> set (fst (aggregated_tools (fd_tool_cache_ttl (fst s)) (\<lambda>a. clock (sv_env sv) (snd s))
      (fd_registry (fst s))))"
    and "json_get_str t ''name'' = Some (param_str request ''name'')"
  shows "handle_tools_call sv request ctx s =
     (if t \<in> set (list_field ''tools''
           (json_rpc_response_to_json (fst (handle_tools_list sv list_request ctx s))))
      then respond_route request
             (route_tool_call (sv_env sv) (sv_lower sv) (param_str request ''name'')
                (json_index (rq_params request) ''arguments'')) s
      else (error_response request (-32000)
              (''access denied: client is not permitted to use leaf '' @ [CHR 0x27]
               @ fst (the (parse_namespaced_name (param_str request ''name''))) @ [CHR 0x27]), s))"
proof -
  let ?name = "param_str request ''name''"
  let ?all = "fst (aggregated_tools (fd_tool_cache_ttl (fst s)) (\<lambda>a. clock (sv_env sv) (snd s))
      (fd_registry (fst s)))"
  let ?keep = "\<lambda>t. case json_get_str t ''name'' of Some name \<Rightarrow> tool_allowed ctx name | None \<Rightarrow> True"
  have all: "tool_allowed ctx n" if "allowed_servers ctx = None" for n
    using that by (simp add: tool_allowed_def split: option.split)
  have "list_field ''tools'' (json_rpc_response_to_json (fst (handle_tools_list sv list_request ctx s))) =
      (if allowed_servers ctx \<noteq> None then filter ?keep ?all else ?all)"
    by (simp add: list_field_def response_to_json_get handle_tools_list_def Let_def split_beta json_simps
        del: not_None_eq)
  with assms all have "t \<in> set (list_field ''tools''
      (json_rpc_response_to_json (fst (handle_tools_list sv list_request ctx s)))) \<longleftrightarrow> tool_allowed ctx ?name"
    by auto
  then show ?thesis
    by (auto simp: handle_tools_call_def tool_allowed_def Let_def split: option.splits)
qed

text \<open>A server for the witnesses: one leaf, no rate limit, and the world of \<open>ok_env\<close>.\<close>

definition sample_srv :: "(nat, nat) srv" where
  "sample_srv =
     \<lparr>sv_env = ok_env, sv_jwt = one_token_lib \<lparr>cl_sub = ''u'', cl_iss = JWT_ISSUER, cl_iat = 100,
        cl_exp = 160, cl_client_info = None\<rparr>,
      sv_since_epoch = (\<lambda>w. Some (duration_from_secs 100)), sv_created = (\<lambda>w. w), sv_uuid = (\<lambda>w. (''u'', w)), sv_lower = (\<lambda>t. t),
      sv_to_string = (\<lambda>v. []), sv_header_ok = (\<lambda>t. True), sv_channel = (\<lambda>n w. ((0, 0), w))\<rparr>"

lemma sample_srv_sel [simp]:
  "sv_env sample_srv = ok_env" "sv_lower sample_srv = (\<lambda>t. t)" "sv_unix sample_srv w = 100"
  "sv_uuid sample_srv w = (''u'', w)" "sv_header_ok sample_srv t"
  by (simp_all add: sample_srv_def)

definition sample_federation :: "string list \<Rightarrow> nat federation" where
  "sample_federation origins =
     \<lparr>fd_registry = sample_registry, fd_tool_cache_ttl = 0,
      fd_sessions = session_manager_new Inr ''key'' 60 None, fd_allowed_origins = origins,
      fd_rate_limiter = rate_limiter_new default_rate_limit_config, fd_notifications = broker_new,
      fd_tasks = []\<rparr>"

theorem rbac_list_matches_call_witness:
  "\<exists>t. json_get_str t ''name'' = Some ''k8s__pods''
     \<and> handle_tools_call sample_srv (sample_call ''k8s__pods'')
         \<lparr>client_id = None, allowed_servers = Some [''k8s'']\<rparr> (sample_federation [], 0)
       = respond_route (sample_call ''k8s__pods'')
           (route_tool_call ok_env (\<lambda>t. t) ''k8s__pods'' JNull) (sample_federation [], 0)"
proof -
  obtain t where t: "namespace_tool ''k8s'' sample_tool = Some t"
    using nt.ns_None [of "''k8s''" sample_tool] by auto
  have n: "json_get_str t ''name'' = Some ''k8s__pods''"
    using nt.ns_ident [OF t sample_tool_name] by (simp add: NAMESPACE_SEPARATOR_def)
  let ?s = "(sample_federation [], 0)" and ?ctx = "\<lparr>client_id = None, allowed_servers = Some [''k8s'']\<rparr>"
  have "\<exists>k e v. leaf_at sample_registry k = Some e \<and> is_healthy e \<and> v \<in> set (cached_tools e)
      \<and> namespace_tool k v = Some t"
    using t by (intro exI [of _ "''k8s''"] exI [of _ sample_leaf] exI [of _ sample_tool]) simp
  then have mem: "t \<in> set (fst (aggregated_tools (fd_tool_cache_ttl (fst ?s))
      (\<lambda>a. clock (sv_env sample_srv) (snd ?s)) (fd_registry (fst ?s))))"
    unfolding listing_iff [OF sample_registry_ok, symmetric]
    by (simp add: aggregated_tools_def sample_federation_def Let_def)
  have p: "parse_namespaced_name ''k8s__pods'' = Some (''k8s'', ''pods'')"
    by (simp add: parse_namespaced_name_def NAMESPACE_SEPARATOR_def split_once_def)
  have listed: "t \<in> set (list_field ''tools''
      (json_rpc_response_to_json (fst (handle_tools_list sample_srv (sample_call []) ?ctx ?s))))"
    using mem n p
    by (simp add: list_field_def response_to_json_get handle_tools_list_def Let_def split_beta json_simps
        tool_allowed_def allows_alias_def)
  have "json_get_str t ''name'' = Some (param_str (sample_call ''k8s__pods'') ''name'')" using n by simp
  from rbac_list_matches_call [OF mem this, of ?ctx "sample_call []"]
  have "handle_tools_call sample_srv (sample_call ''k8s__pods'') ?ctx ?s =
      respond_route (sample_call ''k8s__pods'') (route_tool_call ok_env (\<lambda>t. t) ''k8s__pods'' JNull) ?s"
    by (simp only: listed if_True sample_call_sel sample_srv_sel)
  with n show ?thesis by blast
qed

text \<open>The policy covers tools only: for every method other than \<open>tools/list\<close> and \<open>tools/call\<close>
  the outcome is the same for all clients, so reading resources and getting prompts of a leaf is
  open to clients that may not use it.\<close>

lemma rbac_tools_only:
  assumes "rq_method request \<noteq> ''tools/list''" and "rq_method request \<noteq> ''tools/call''"
  shows "dispatch sv request sid ctx s = dispatch sv request sid ctx' s"
  using assms by (simp add: dispatch_def Let_def)

section \<open>Facts: the guards of the endpoint\<close>

text \<open>The parts of the state only the methods themselves change.\<close>

definition backend :: "'tx federation \<times> 'w \<Rightarrow> registry \<times> 'tx broker \<times> nat list \<times> 'w" where
  "backend s = (fd_registry (fst s), fd_notifications (fst s), fd_tasks (fst s), snd s)"

lemma check_origin_Inl:
  "check_origin allowed h = Inl resp \<longleftrightarrow>
     resp = text_reply 403 ''origin not allowed'' \<and> allowed \<noteq> []
     \<and> (h ''origin'' = None \<or> h ''origin'' = Some [] \<or> the (h ''origin'') \<notin> set allowed)"
  by (auto simp: check_origin_def Let_def list_ex_iff split: option.splits)

lemma session_gate_Inl:
  "session_gate sv request incoming s = Inl resp \<Longrightarrow> rp_status resp = 404"
  by (auto simp: session_gate_def text_reply_def split: if_splits option.splits)

lemma session_gate_Inr:
  "session_gate sv request incoming s = Inr st \<Longrightarrow> backend (st, snd s) = backend s"
  by (auto simp: session_gate_def backend_def split: if_splits option.splits)

text \<open>What the handler did when it did not answer 200: a request of a foreign origin or of an unknown
  session changes nothing, one over the limit at most its session's last use and the limiter.\<close>

lemma handle_mcp_refused:
  assumes "handle_mcp sv h ctx request s = (reply, s')" and "rp_status reply \<noteq> 200"
  shows "rp_status reply \<in> {403, 404} \<and> s' = s \<or> rp_status reply = 429 \<and> backend s' = backend s"
proof (cases "check_origin (fd_allowed_origins (fst s)) h")
  case (Inl resp)
  with assms(1) show ?thesis by (auto simp: handle_mcp_def check_origin_Inl text_reply_def)
next
  case (Inr u)
  show ?thesis
  proof (cases "session_gate sv request (extract_session_id h) s")
    case (Inl resp)
    with Inr assms(1) session_gate_Inl [OF Inl] show ?thesis by (auto simp: handle_mcp_def)
  next
    case gate: (Inr st)
    with Inr assms session_gate_Inr [OF gate] show ?thesis
      by (auto simp: handle_mcp_def Let_def split_beta backend_def split: if_splits)
  qed
qed

text \<open>Protection against foreign origins: with an allow-list, a request whose \<open>Origin\<close> header is
  absent, empty or not in the list is refused with 403 by all three methods of the endpoint, before
  anything is read or changed.\<close>

lemma foreign_origin_refused:
  assumes "fd_allowed_origins (fst s) \<noteq> []"
    and "h ''origin'' = None \<or> h ''origin'' = Some [] \<or> the (h ''origin'') \<notin> set (fd_allowed_origins (fst s))"
  shows "handle_mcp sv h ctx request s = (text_reply 403 ''origin not allowed'', s)
    \<and> delete_mcp h s = (text_reply 403 ''origin not allowed'', s)
    \<and> get_mcp sv h s = (text_reply 403 ''origin not allowed'', s)"
proof -
  have "check_origin (fd_allowed_origins (fst s)) h = Inl (text_reply 403 ''origin not allowed'')"
    using assms by (simp add: check_origin_Inl)
  then show ?thesis by (simp add: handle_mcp_def delete_mcp_def get_mcp_def)
qed

section \<open>Facts: sessions at the endpoint\<close>

lemma dispatch_initialize:
  "rq_method request = ''initialize'' \<Longrightarrow> dispatch sv request sid ctx s = (handle_initialize request, s)"
  by (simp add: dispatch_def)

lemma initialize_no_client_info: "extract_client_info (handle_initialize request) = None"
  by (simp add: extract_client_info_def handle_initialize_def json_simps)

text \<open>The state of a new session and that it is accepted at once.\<close>

lemma create_session_valid:
  assumes "manager_ok m" "token_verifies lib (encoding_key m) (new_claims uuid unix ci m)"
    and "create_session lib uuid unix now ci m = (sid, m')"
    and "unat unix \<le> unat (cl_exp (new_claims uuid unix ci m)) + 5" "sm_ttl m \<noteq> 0"
  shows "validate_session lib unix now sid m'"
    and "\<exists>st. hm_get (sessions m') sid = Some st \<and> ss_client_info st = ci"
proof -
  have sid: "sid = jwt_encode lib (decoding_key m) (new_claims uuid unix ci m)"
    and m': "decoding_key m' = decoding_key m" "sm_ttl m' = sm_ttl m"
    and get: "hm_get (sessions m') sid =
      Some \<lparr>created_at = now, last_active = now, ss_client_info = ci, ss_log_level = None\<rparr>"
    using assms(1,3) by (auto simp: create_session_def Let_def manager_ok_def hm_simps)
  have "\<exists>c. decode_claims lib unix sid m' = Inr c"
    using token_verifies_decode [OF assms(2), of "[JWT_ISSUER]" 5 unix] assms(1,4)
    by (simp add: decode_claims_def sid m' manager_ok_def new_claims_def)
  with get assms(5) show "validate_session lib unix now sid m'"
    by (simp add: validate_via_track m' elapsed_def)
  show "\<exists>st. hm_get (sessions m') sid = Some st \<and> ss_client_info st = ci" using get by simp
qed

text \<open>The handshake opens a usable session: an accepted \<open>initialize\<close> answers 200 with a session
  id, and that id is accepted from then on.  The stored session never has the client's description:
  it is looked for in the server's own response, which has none.\<close>

lemma initialize_opens_session:
  assumes "rq_method request = ''initialize''" and "check_origin (fd_allowed_origins (fst s)) h = Inr ()"
    and "fst (check (client_label (case ctx of Some c \<Rightarrow> c | None \<Rightarrow> anonymous_ctx))
           (clock (sv_env sv) (snd s)) (sv_created sv (snd s)) (fd_rate_limiter (fst s)))"
    and "manager_ok (fd_sessions (fst s))" and "sm_ttl (fd_sessions (fst s)) \<noteq> 0"
    and "sv_uuid sv (snd s) = (uuid, w)"
    and "token_verifies (sv_jwt sv) (encoding_key (fd_sessions (fst s)))
           (new_claims uuid (sv_unix sv w) None (fd_sessions (fst s)))"
    and "unat (sv_unix sv w) \<le> unat (cl_exp (new_claims uuid (sv_unix sv w) None (fd_sessions (fst s)))) + 5"
    and "\<And>t. sv_header_ok sv t"
  shows "\<exists>reply st sid. handle_mcp sv h ctx request s = (reply, (st, w)) \<and> rp_status reply = 200
     \<and> rp_session reply = Some sid
     \<and> validate_session (sv_jwt sv) (sv_unix sv w) (clock (sv_env sv) w) sid (fd_sessions st)
     \<and> map_option ss_client_info (hm_get (sessions (fd_sessions st)) sid) = Some None"
proof -
  let ?m = "fd_sessions (fst s)"
  obtain sid m' where c: "create_session (sv_jwt sv) uuid (sv_unix sv w) (clock (sv_env sv) w) None ?m = (sid, m')"
    by (cases "create_session (sv_jwt sv) uuid (sv_unix sv w) (clock (sv_env sv) w) None ?m")
  note v = create_session_valid [OF assms(4,7) c assms(8,5)]
  have gate: "session_gate sv request (extract_session_id h) s = Inr (fst s)"
    using assms(1) by (simp add: session_gate_def)
  let ?lim = "snd (check (client_label (case ctx of Some c \<Rightarrow> c | None \<Rightarrow> anonymous_ctx))
     (clock (sv_env sv) (snd s)) (sv_created sv (snd s)) (fd_rate_limiter (fst s)))"
  have op: "open_session sv request (handle_initialize request) ((fst s)\<lparr>fd_rate_limiter := ?lim\<rparr>, snd s) =
      (Some sid, ((fst s)\<lparr>fd_rate_limiter := ?lim, fd_sessions := m'\<rparr>, w))"
    using assms(1,6) c initialize_no_client_info
    by (simp add: open_session_def) (simp add: handle_initialize_def)
  have "\<exists>reply. handle_mcp sv h ctx request s = (reply, ((fst s)\<lparr>fd_rate_limiter := ?lim, fd_sessions := m'\<rparr>, w))
      \<and> rp_status reply = 200 \<and> rp_session reply = Some sid"
    using assms(2,3,9) gate op
    by (simp add: handle_mcp_def Let_def split_beta dispatch_initialize [OF assms(1)])
  with v show ?thesis by fastforce
qed

text \<open>Ending a session is final: once \<open>DELETE /mcp\<close> has named it, the session is refused at every
  later moment, a second \<open>DELETE\<close> answers 404, and no other session is affected.\<close>

lemma delete_ends_session:
  assumes "check_origin (fd_allowed_origins (fst s)) h = Inr ()" and "extract_session_id h = Some sid"
    and "delete_mcp h s = (reply, s')"
  shows "\<not> validate_session lib unix now sid (fd_sessions (fst s'))
    \<and> delete_mcp h s' = (text_reply 404 ''session expired or unknown'', s')
    \<and> (other \<noteq> sid \<longrightarrow>
         validate_session lib unix now other (fd_sessions (fst s'))
         = validate_session lib unix now other (fd_sessions (fst s)))"
proof -
  have s': "s' = ((fst s)\<lparr>fd_sessions := snd (terminate_session sid (fd_sessions (fst s)))\<rparr>, snd s)"
    using assms by (auto simp: delete_mcp_def Let_def split_beta split: if_splits)
  have idem: "hm_remove sid (hm_remove sid m) = hm_remove sid m" for m :: "(string, session_state) hmap"
    by (simp add: hm_remove_def delete_idem)
  have "delete_mcp h s' = (text_reply 404 ''session expired or unknown'', s')"
    using assms(1,2)
    by (simp add: s' delete_mcp_def Let_def split_beta terminate_session_def hm_simps idem)
  then show ?thesis
    by (simp add: s' validate_session_def terminate_session_def decode_claims_def hm_simps
        split: sum.split option.split)
qed

section \<open>Facts: the status page\<close>

fun escape_char :: "char \<Rightarrow> string" where
  "escape_char c =
     (if c = CHR ''&'' then ''&amp;'' else if c = CHR ''<'' then ''&lt;'' else if c = CHR ''>'' then ''&gt;''
      else if c = CHR 0x22 then ''&quot;'' else if c = CHR 0x27 then ''&#39;'' else [c])"

lemma replace_append: "str_replace_char c r (a @ b) = str_replace_char c r a @ str_replace_char c r b"
  by (simp add: str_replace_char_def)

text \<open>The five successive replacements are one correct escaping: they act on each character on
  its own (an ampersand written by one is never escaped again by another), and the result contains
  none of the characters that could open a tag or leave an attribute.\<close>

lemma html_escape_safe:
  "html_escape s = concat (map escape_char s)
   \<and> set (html_escape s) \<inter> {CHR ''<'', CHR ''>'', CHR 0x22, CHR 0x27} = {}"
proof (induction s)
  case Nil
  then show ?case by (simp add: html_escape_def str_replace_char_def)
next
  case (Cons c s)
  have "html_escape (c # s) = html_escape [c] @ html_escape s"
    using replace_append [of _ _ "[c]"] by (simp add: html_escape_def replace_append [symmetric])
  moreover have "html_escape [c] = escape_char c" by (simp add: html_escape_def str_replace_char_def)
  ultimately show ?case using Cons by (simp del: escape_char.simps) auto
qed

end
