(* ===== verification/Fed_Main.thy ===== *)
theory Fed_Main
  imports Fed_Server
begin

text \<open>
  Parts of the program itself (\<open>src/src/main.rs\<close>): the bearer-token middleware in front of the HTTP
  handlers, the reload of the configuration on SIGHUP, and the state at start-up.
\<close>

section \<open>Authentication\<close>

record auth_state =
  au_token :: "string option"
  au_token_file :: "string option"
  au_clients :: "client_config list"

definition resolve_token :: "'w env \<Rightarrow> 'w \<Rightarrow> auth_state \<Rightarrow> string option" where
  "resolve_token env w auth =
     (case au_token auth of
        Some t \<Rightarrow> Some t
      | None \<Rightarrow>
          (case au_token_file auth of
             Some path \<Rightarrow>
               (case read_to_string env path w of
                  Inr contents \<Rightarrow> Some (str_trim contents)
                | Inl e \<Rightarrow> None)
           | None \<Rightarrow> None))"

definition skip_auth :: "string \<Rightarrow> bool" where
  "skip_auth path \<longleftrightarrow>
     path = ''/healthz'' \<or> path = ''/metrics'' \<or> path = ''/status''
     \<or> prefix ''/swagger-ui'' path \<or> path = ''/openapi.json''"

text \<open>Refused with 401 (\<open>None\<close>), or passed on with the context it attaches, if any.\<close>

definition auth_middleware ::
  "'w env \<Rightarrow> 'w \<Rightarrow> auth_state \<Rightarrow> string \<Rightarrow> string option \<Rightarrow> request_context option option" where
  "auth_middleware env w auth path authorization =
     (let skip = skip_auth path
      in case resolve_token env w auth of
           None \<Rightarrow> Some (if \<not> skip then Some anonymous_ctx else None)
         | Some admin \<Rightarrow>
             if \<not> skip then
               (let presented = Option.bind authorization (\<lambda>v. strip_prefix ''Bearer '' v);
                    ctx = (case presented of
                             Some tok \<Rightarrow> resolve tok admin (au_clients auth) | None \<Rightarrow> None)
                in case ctx of Some c \<Rightarrow> Some (Some c) | None \<Rightarrow> None)
             else Some None)"

section \<open>Reload\<close>

text \<open>Whether a running leaf already has the settings of a server of the new configuration.\<close>

definition same_settings :: "leaf_entry \<Rightarrow> server_config \<Rightarrow> bool" where
  "same_settings e server \<longleftrightarrow>
     sc_url (le_config e) = sc_url server
     \<and> sc_auth_token (le_config e) = sc_auth_token server
     \<and> sc_auth_token_file (le_config e) = sc_auth_token_file server
     \<and> sc_transport (le_config e) = sc_transport server
     \<and> sc_timeout_seconds (le_config e) = sc_timeout_seconds server"

text \<open>One turn of the loop over the servers; an added entry also gets a \<open>warm_leaf\<close> task.\<close>

definition reload_server ::
  "'w env \<Rightarrow> 'w \<Rightarrow> connection_pool_config \<Rightarrow> server_config \<Rightarrow> registry \<Rightarrow> registry" where
  "reload_server env w pool server r =
     (let (is_new, changed) =
            (case get_leaf (sc_alias server) r of
               None \<Rightarrow> (True, False)
             | Some a \<Rightarrow> (False, \<not> same_settings (entry r a) server))
      in if is_new \<or> changed
         then put_leaf (sc_alias server) (leaf_new_with_pool env w server pool) r else r)"

definition reload_config :: "'w env \<Rightarrow> 'w \<Rightarrow> federation_error + federation_config \<Rightarrow> registry \<Rightarrow> registry" where
  "reload_config env w loaded r =
     (case loaded of
        Inl e \<Rightarrow> r
      | Inr cfg \<Rightarrow>
          (let existing = aliases r;
               incoming = map sc_alias (fc_servers cfg);
               r1 = fold (reload_server env w (pool_config r)) (fc_servers cfg) r
           in fold del_leaf (filter (\<lambda>a. a \<notin> set incoming) existing) r1))"

text \<open>The handler of one SIGHUP: the file is read and validated again.\<close>

definition on_sighup ::
  "'w env \<Rightarrow> (string \<Rightarrow> string option) \<Rightarrow> (string \<Rightarrow> string + federation_config) \<Rightarrow> string
   \<Rightarrow> registry \<times> 'w \<Rightarrow> registry \<times> 'w" where
  "on_sighup env getenv yaml path s =
     (reload_config env (snd s) (config_from_file (\<lambda>p. read_to_string env p (snd s)) getenv yaml path) (fst s),
      snd s)"

section \<open>Start-up\<close>

text \<open>The leaves that get a notification listener.\<close>

definition leaf_notification_listeners :: "registry \<Rightarrow> nat list" where
  "leaf_notification_listeners r =
     filter (\<lambda>a. sc_transport (le_config (entry r a)) = StreamableHttp) (all_leaves r)"

text \<open>The state of the server once \<open>main\<close> has loaded its configuration.\<close>

definition start_federation ::
  "'w env \<Rightarrow> (string \<Rightarrow> string + string) \<Rightarrow> string \<Rightarrow> federation_config \<Rightarrow> 'w
   \<Rightarrow> 'tx federation \<times> 'w" where
  "start_federation env base64_decode random_key config w =
     (let settings = fc_federation config;
          (r, w') = initialize_all env
            (from_configs_with_pool env w (fc_servers config) (fs_connection_pool settings), w)
      in (\<lparr>fd_registry = r,
           fd_tool_cache_ttl = duration_from_secs (tool_cache_ttl_seconds settings),
           fd_sessions = session_manager_new base64_decode random_key (session_ttl_seconds settings)
                           (fs_session_secret settings),
           fd_allowed_origins = fs_allowed_origins settings,
           fd_rate_limiter = rate_limiter_new (fs_rate_limit settings),
           fd_notifications = broker_new,
           fd_tasks = []\<rparr>, w'))"

text \<open>The credentials: the command line goes before the configuration.\<close>

definition start_auth :: "string option \<Rightarrow> string option \<Rightarrow> federation_settings \<Rightarrow> auth_state" where
  "start_auth cli_token cli_token_file settings =
     \<lparr>au_token = (case cli_token of Some t \<Rightarrow> Some t | None \<Rightarrow> fs_auth_token settings),
      au_token_file = (case cli_token_file of Some f \<Rightarrow> Some f | None \<Rightarrow> fs_auth_token_file settings),
      au_clients = fs_clients settings\<rparr>"

section \<open>Facts: authentication\<close>

text \<open>C7: With a token in force, exactly the known bearer tokens get in: outside the open paths a
  request is passed on exactly when it presents the administrator's token or that of a client, and
  the context it then carries allows everything for the administrator, and for a client exactly what
  the first entry with that token grants.\<close>

theorem auth_exact:
  assumes "resolve_token env w auth = Some admin" and "\<not> skip_auth path"
  shows "(case auth_middleware env w auth path authorization of
            None \<Rightarrow> (\<nexists>tok. authorization = Some (''Bearer '' @ tok)
                       \<and> (tok = admin \<or> tok \<in> cc_token ` set (au_clients auth)))
          | Some c \<Rightarrow>
              (\<exists>tok ctx. authorization = Some (''Bearer '' @ tok) \<and> c = Some ctx
                 \<and> (if tok = admin then allows_alias ctx = (\<lambda>_. True)
                    else \<exists>cl. find (\<lambda>cl. cc_token cl = tok) (au_clients auth) = Some cl
                            \<and> allows_alias ctx = client_grants cl)))"
proof (cases "Option.bind authorization (\<lambda>v. strip_prefix ''Bearer '' v)")
  case None
  then have "auth_middleware env w auth path authorization = None"
    using assms by (simp add: auth_middleware_def)
  moreover have "authorization \<noteq> Some (''Bearer '' @ tok)" for tok
    using None strip_prefix_append [of "''Bearer ''" tok] by auto
  ultimately show ?thesis by simp
next
  case (Some tok)
  then have a: "authorization = Some (''Bearer '' @ tok)"
    by (auto simp: bind_eq_Some_conv strip_prefix_Some)
  have m: "auth_middleware env w auth path authorization =
      (case resolve tok admin (au_clients auth) of Some c \<Rightarrow> Some (Some c) | None \<Rightarrow> None)"
    using assms Some by (simp add: auth_middleware_def)
  show ?thesis
  proof (cases "tok = admin")
    case True
    then show ?thesis unfolding m by (auto simp: a resolve_def admin_ctx_def fun_eq_iff)
  next
    case False
    then show ?thesis
      unfolding m
      using resolve_clients_None [of tok 0 "au_clients auth"] resolve_clients_grants [of tok 0 "au_clients auth"]
      by (auto simp: a resolve_def fun_eq_iff split: option.splits)
  qed
qed

theorem auth_exact_witness:
  "resolve_token ok_env 0 \<lparr>au_token = Some ''root'', au_token_file = None, au_clients = []\<rparr> = Some ''root''
   \<and> (case auth_middleware ok_env 0 \<lparr>au_token = Some ''root'', au_token_file = None, au_clients = []\<rparr>
          ''/mcp'' (Some ''Bearer guess'') of None \<Rightarrow> True | Some c \<Rightarrow> False)"
proof -
  let ?au = "\<lparr>au_token = Some ''root'', au_token_file = None, au_clients = []\<rparr>"
  have r: "resolve_token ok_env 0 ?au = Some ''root''" by (simp add: resolve_token_def)
  have p: "\<not> skip_auth ''/mcp''" by (simp add: skip_auth_def)
  from auth_exact [OF r p, of "Some ''Bearer guess''"] r show ?thesis
    by (auto split: option.splits)
qed

text \<open>An unreadable token file opens the server: when the token is to come from a file and the file
  cannot be read, every request is passed on with the unrestricted anonymous context, whatever it
  presents and whatever clients are configured.\<close>

lemma unreadable_token_file_opens:
  assumes "au_token auth = None" and "au_token_file auth = Some file"
    and "read_to_string env file w = Inl e" and "\<not> skip_auth path"
  shows "auth_middleware env w auth path authorization = Some (Some anonymous_ctx)
         \<and> allows_alias anonymous_ctx = (\<lambda>_. True)"
  using assms by (auto simp: auth_middleware_def resolve_token_def anonymous_ctx_def fun_eq_iff)

section \<open>Facts: reload\<close>

lemma reload_server_at:
  assumes "registry_ok r"
  shows "leaf_at (reload_server env w pool server r) k =
     (if k = sc_alias server
      then (case leaf_at r k of
              Some e \<Rightarrow> if same_settings e server then Some e else Some (leaf_new_with_pool env w server pool)
            | None \<Rightarrow> Some (leaf_new_with_pool env w server pool))
      else leaf_at r k)"
    and "registry_ok (reload_server env w pool server r)"
proof -
  show "leaf_at (reload_server env w pool server r) k =
     (if k = sc_alias server
      then (case leaf_at r k of
              Some e \<Rightarrow> if same_settings e server then Some e else Some (leaf_new_with_pool env w server pool)
            | None \<Rightarrow> Some (leaf_new_with_pool env w server pool))
      else leaf_at r k)"
    using rt.lookup_put [OF assms]
    by (cases "get_leaf (sc_alias server) r") (auto simp: reload_server_def Let_def leaf_at_def)
  show "registry_ok (reload_server env w pool server r)"
    using assms rt.ok_put [OF assms, of "leaf_new_with_pool env w server pool" "sc_alias server"]
    by (simp add: reload_server_def Let_def split_beta split: option.split)
qed

lemma fold_reload_ok: "registry_ok r \<Longrightarrow> registry_ok (fold (reload_server env w pool) servers r)"
  by (induction servers arbitrary: r) (simp_all add: reload_server_at(2))

lemma fold_reload_at:
  assumes "registry_ok r" "distinct (map sc_alias servers)"
  shows "leaf_at (fold (reload_server env w pool) servers r) k =
     (case find (\<lambda>x. sc_alias x = k) servers of
        None \<Rightarrow> leaf_at r k
      | Some server \<Rightarrow>
          (case leaf_at r k of
             Some e \<Rightarrow> if same_settings e server then Some e else Some (leaf_new_with_pool env w server pool)
           | None \<Rightarrow> Some (leaf_new_with_pool env w server pool)))"
  using assms
proof (induction servers arbitrary: r)
  case (Cons s ss)
  have "find (\<lambda>x. sc_alias x = k) ss = None" if "k = sc_alias s"
    using Cons.prems(2) that by (auto simp: find_None_iff image_iff)
  with Cons.IH [OF reload_server_at(2) [OF Cons.prems(1)], of env w pool s] Cons.prems(2)
    reload_server_at(1) [OF Cons.prems(1), of env w pool s k]
  show ?case by (auto cong: option.case_cong)
qed simp

text \<open>The settings of a server that a running leaf depends on.\<close>

definition connection_settings ::
  "server_config \<Rightarrow> string \<times> string option \<times> string option \<times> transport_type \<times> u64 option" where
  "connection_settings sc =
     (sc_url sc, sc_auth_token sc, sc_auth_token_file sc, sc_transport sc, sc_timeout_seconds sc)"

lemma same_settings_iff:
  "same_settings e server \<longleftrightarrow> connection_settings (le_config e) = connection_settings server"
  by (auto simp: same_settings_def connection_settings_def)

lemma reload_config_at:
  assumes "registry_ok r" and "loaded = config_from_file read getenv yaml path"
  shows "leaf_at (reload_config env w loaded r) k =
     (case loaded of
        Inl e \<Rightarrow> leaf_at r k
      | Inr cfg \<Rightarrow>
          (case find (\<lambda>x. sc_alias x = k) (fc_servers cfg) of
             None \<Rightarrow> None
           | Some server \<Rightarrow>
               (case leaf_at r k of
                  Some e \<Rightarrow> if connection_settings (le_config e) = connection_settings server then Some e
                            else Some (leaf_new_with_pool env w server (pool_config r))
                | None \<Rightarrow> Some (leaf_new_with_pool env w server (pool_config r)))))"
proof (cases loaded)
  case (Inr cfg)
  then have d: "distinct (map sc_alias (fc_servers cfg))"
    using validate_Inr [OF config_from_file_Inr] assms(2) by (metis servers_ok_def)
  note f = fold_reload_at [OF assms(1) d, of env w "pool_config r"]
    fold_reload_ok [OF assms(1), of env w "pool_config r" "fc_servers cfg"]
  have "k \<in> set (filter (\<lambda>a. a \<notin> set (map sc_alias (fc_servers cfg))) (aliases r)) \<longleftrightarrow>
      leaf_at r k \<noteq> None \<and> find (\<lambda>x. sc_alias x = k) (fc_servers cfg) = None"
    unfolding set_filter aliases_leaf_at by (auto simp: find_None_iff)
  then show ?thesis
    using Inr f
    by (auto simp: reload_config_def Let_def rt.lookup_fold_del [OF f(2)] same_settings_iff split: option.splits)
qed (simp add: reload_config_def)

text \<open>C19: A reload makes the registry equal to the new configuration: an invalid file changes nothing;
  with a valid one every alias of the file has a leaf, the running entry with all its caches when its
  URL, credentials, transport and timeout are the same, a fresh one otherwise, and every other alias is gone.\<close>

theorem reload_exact:
  assumes "registry_ok r" and "loaded = config_from_file read getenv yaml path"
  shows "leaf_at (reload_config env w loaded r) k =
     (case loaded of
        Inl e \<Rightarrow> leaf_at r k
      | Inr cfg \<Rightarrow>
          (case find (\<lambda>x. sc_alias x = k) (fc_servers cfg) of
             None \<Rightarrow> None
           | Some server \<Rightarrow>
               (case leaf_at r k of
                  Some e \<Rightarrow> if connection_settings (le_config e) = connection_settings server then Some e
                            else Some (leaf_new_with_pool env w server (pool_config r))
                | None \<Rightarrow> Some (leaf_new_with_pool env w server (pool_config r)))))"
  using assms by (rule reload_config_at)

definition one_server_yaml :: "string \<Rightarrow> string + federation_config" where
  "one_server_yaml text =
     Inr \<lparr>fc_federation = default_federation_settings, fc_servers = [sample_server ''k8s'']\<rparr>"

lemma one_server_loads:
  "config_from_file (\<lambda>p. Inr []) (\<lambda>v. None) one_server_yaml ''f'' =
     Inr \<lparr>fc_federation = default_federation_settings, fc_servers = [sample_server ''k8s'']\<rparr>"
  by (simp add: config_from_file_def parse_config_def one_server_yaml_def validate_def str_contains_def)

lemma sample_leaf_same [simp]: "same_settings sample_leaf (sample_server ''k8s'')"
  by (simp add: same_settings_def)

theorem reload_exact_witness:
  "leaf_at (reload_config ok_env 5 (config_from_file (\<lambda>p. Inr []) (\<lambda>v. None) one_server_yaml ''f'')
      sample_registry) ''k8s'' = Some sample_leaf"
  using reload_exact [OF sample_registry_ok refl, of ok_env 5 "\<lambda>p. Inr []" "\<lambda>v. None" one_server_yaml "''f''" "''k8s''"]
  by (simp add: one_server_loads)

end
