(* ===== verification/Fed_Pool.thy ===== *)
theory Fed_Pool
  imports Fed_Prelude
begin

text \<open>
  Tasks that take turns on shared state, as the tasks of the runtime do on what they lock: a pool of
  tasks, its interleavings, and the rule by which a property of every task is kept.
\<close>

text \<open>One task has a turn, or something that is not in the pool changes the shared state.\<close>

inductive pool_step ::
  "('t \<Rightarrow> 's \<Rightarrow> 't \<times> 's) \<Rightarrow> ('s \<Rightarrow> 's \<Rightarrow> bool) \<Rightarrow> 't list \<times> 's \<Rightarrow> 't list \<times> 's \<Rightarrow> bool"
  for turn :: "'t \<Rightarrow> 's \<Rightarrow> 't \<times> 's" and other :: "'s \<Rightarrow> 's \<Rightarrow> bool" where
  pool_turn: "i < length ts \<Longrightarrow> turn (ts ! i) s = (t, s') \<Longrightarrow> pool_step turn other (ts, s) (ts[i := t], s')"
| pool_other: "other s s' \<Longrightarrow> pool_step turn other (ts, s) (ts, s')"

inductive_cases pool_stepE: "pool_step turn other x y"

text \<open>A schedule of turns, by the number of the task.\<close>

fun schedule :: "('t \<Rightarrow> 's \<Rightarrow> 't \<times> 's) \<Rightarrow> nat list \<Rightarrow> 't list \<times> 's \<Rightarrow> 't list \<times> 's" where
  "schedule turn [] x = x"
| "schedule turn (i # is) (ts, s) = (let (t, s') = turn (ts ! i) s in schedule turn is (ts[i := t], s'))"

lemma schedule_run: "list_all (\<lambda>i. i < length (fst x)) is \<Longrightarrow> (pool_step turn other)\<^sup>*\<^sup>* x (schedule turn is x)"
proof (induction turn "is" x rule: schedule.induct)
  case (2 turn i "is" ts s)
  obtain t s' where turn: "turn (ts ! i) s = (t, s')" by (metis surj_pair)
  with 2 have "pool_step turn other (ts, s) (ts[i := t], s')" by (intro pool_turn) auto
  moreover have "(pool_step turn other)\<^sup>*\<^sup>* (ts[i := t], s') (schedule turn is (ts[i := t], s'))"
    using 2 turn by (auto simp: list_all_iff)
  ultimately show ?case using turn by (auto simp: Let_def intro: converse_rtranclp_into_rtranclp)
qed simp

lemma schedule_reaches:
  "schedule turn is x = y \<Longrightarrow> list_all (\<lambda>i. i < length (fst x)) is \<Longrightarrow> (pool_step turn other)\<^sup>*\<^sup>* x y"
  using schedule_run by blast

text \<open>
  Rely and guarantee: the \<open>i\<close>-th task in a state for which \<open>task_ok i\<close> holds keeps it by its own turns, and no
  turn of another task, nor anything from outside, breaks it.
\<close>

locale rely_guarantee =
  fixes turn :: "'t \<Rightarrow> 's \<Rightarrow> 't \<times> 's"
    and other :: "'s \<Rightarrow> 's \<Rightarrow> bool"
    and sound :: "'s \<Rightarrow> bool"
    and task_ok :: "nat \<Rightarrow> 't \<Rightarrow> 's \<Rightarrow> bool"
  assumes own_turn: "sound s \<Longrightarrow> task_ok i t s \<Longrightarrow> turn t s = (t', s') \<Longrightarrow> sound s' \<and> task_ok i t' s'"
    and stable: "sound s \<Longrightarrow> task_ok i t s \<Longrightarrow> turn t s = (t', s') \<Longrightarrow> j \<noteq> i \<Longrightarrow> task_ok j u s \<Longrightarrow> task_ok j u s'"
    and from_outside: "sound s \<Longrightarrow> other s s' \<Longrightarrow> sound s' \<and> (task_ok i t s \<longrightarrow> task_ok i t s')"
begin

lemma step_keeps:
  assumes "pool_step turn other x y" and "sound (snd x)" and "\<forall>i < length (fst x). task_ok i (fst x ! i) (snd x)"
  shows "length (fst y) = length (fst x) \<and> sound (snd y) \<and> (\<forall>i < length (fst y). task_ok i (fst y ! i) (snd y))"
  using assms
proof (induction rule: pool_step.induct)
  case (pool_turn i ts s t s')
  then have i: "task_ok i (ts ! i) s" "sound s" by simp_all
  have "task_ok j (ts[i := t] ! j) s'" if "j < length ts" for j
    using own_turn [OF i(2,1) pool_turn(2)] stable [OF i(2,1) pool_turn(2)] pool_turn(1,4) that
    by (cases "j = i") auto
  with own_turn [OF i(2,1) pool_turn(2)] show ?case by simp
qed (use from_outside in auto)

lemma run_keeps:
  assumes "(pool_step turn other)\<^sup>*\<^sup>* (ts, s) (ts', s')" and "sound s" and "\<And>i. i < length ts \<Longrightarrow> task_ok i (ts ! i) s"
  shows "length ts' = length ts \<and> sound s' \<and> (\<forall>i < length ts'. task_ok i (ts' ! i) s')"
proof -
  have "length (fst y) = length ts \<and> sound (snd y) \<and> (\<forall>i < length (fst y). task_ok i (fst y ! i) (snd y))"
    if "(pool_step turn other)\<^sup>*\<^sup>* (ts, s) y" for y
    using that by (induction rule: rtranclp_induct) (use assms(2,3) step_keeps in auto)
  from this [OF assms(1)] show ?thesis by simp
qed

end

end
