(* ===== verification/Fed_Api.thy ===== *)
theory Fed_Api
  imports Fed_Router Fed_Pool
begin

text \<open>
  The management API (\<open>src/src/api.rs\<close>): registering, listing and removing leaves at run time.  A
  registration also spawns \<open>warm_leaf\<close> on the new entry, which the handler reports as an address.  The
  registration is also taken apart into the turns in which it holds the lock, to interleave several.
\<close>

record register_request =
  rr_alias :: string
  rr_url :: string
  rr_transport :: transport_type
  rr_tags :: "string list"
  rr_auth_token :: "string option"
  rr_timeout_seconds :: "u64 option"

record server_info_response =
  si_alias :: string
  si_url :: string
  si_transport :: string
  si_tags :: "string list"
  si_health :: string
  si_tool_count :: nat

datatype api_body =
    ApiServer server_info_response
  | ApiServers "server_info_response list"
  | ApiError string

definition to_server_info :: "leaf_entry \<Rightarrow> server_info_response" where
  "to_server_info e =
     \<lparr>si_alias = sc_alias (le_config e), si_url = sc_url (le_config e),
      si_transport = transport_debug (sc_transport (le_config e)), si_tags = sc_tags (le_config e),
      si_health = health_str (health e), si_tool_count = length (cached_tools e)\<rparr>"

definition register_config :: "register_request \<Rightarrow> server_config" where
  "register_config req =
     \<lparr>sc_alias = rr_alias req, sc_url = rr_url req, sc_auth_token = rr_auth_token req,
      sc_auth_token_file = None, sc_transport = rr_transport req, sc_tags = rr_tags req,
      sc_health_check = default_health_check_config, sc_timeout_seconds = rr_timeout_seconds req,
      sc_tls = default_tls_config\<rparr>"

text \<open>
  \<open>register_server\<close> takes the lock of the table three times, and other tasks can run in between: it
  looks whether the alias is free, adds the entry, and looks the alias up again for the reply.
\<close>

definition register_refusal :: "register_request \<Rightarrow> registry \<Rightarrow> (u16 \<times> api_body) option" where
  "register_refusal req r =
     (if rr_alias req = [] then Some (400, ApiError ''alias must not be empty'')
      else if str_contains ''__'' (rr_alias req) then
        Some (400, ApiError (''alias '' @ [CHR 0x27] @ rr_alias req @ [CHR 0x27] @ '' cannot contain ''
            @ [CHR 0x27] @ ''__'' @ [CHR 0x27] @ '' (reserved as namespace separator)''))
      else if rr_url req = [] then Some (400, ApiError ''url must not be empty'')
      else if get_leaf (rr_alias req) r \<noteq> None then
        Some (409, ApiError (''server '' @ [CHR 0x27] @ rr_alias req @ [CHR 0x27] @ '' already registered''))
      else None)"

definition register_insert :: "'w env \<Rightarrow> register_request \<Rightarrow> registry \<times> 'w \<Rightarrow> registry" where
  "register_insert env req s =
     (let entry = leaf_new_with_pool env (snd s) (register_config req) (pool_config (fst s))
      in snd (add_leaf (rr_alias req) entry (fst s)))"

text \<open>\<open>None\<close>: the alias is gone again and \<open>expect\<close> panics, which ends the connection without a reply.\<close>

definition register_reply :: "register_request \<Rightarrow> registry \<Rightarrow> (u16 \<times> api_body) option" where
  "register_reply req r =
     (case get_leaf (rr_alias req) r of
        Some a \<Rightarrow> Some (201, ApiServer (to_server_info (entry r a)))
      | None \<Rightarrow> None)"

text \<open>The handler without interruption: the reply, the address of the entry to warm up, the registry.\<close>

definition register_server ::
  "'w env \<Rightarrow> register_request \<Rightarrow> registry \<times> 'w \<Rightarrow> (u16 \<times> api_body) option \<times> nat option \<times> registry \<times> 'w" where
  "register_server env req s =
     (case register_refusal req (fst s) of
        Some refusal \<Rightarrow> (Some refusal, None, s)
      | None \<Rightarrow>
          (let r = register_insert env req s
           in (register_reply req r, Some (length (leaf_heap (fst s))), (r, snd s))))"

text \<open>
  The same handler as a task among others, one turn for each time it takes the lock.
\<close>

datatype reg_task =
    Reg_Check register_request
  | Reg_Insert register_request
  | Reg_Reply register_request
  | Reg_Done "(u16 \<times> api_body) option"

fun reg_task_turn :: "'w env \<Rightarrow> reg_task \<Rightarrow> registry \<times> 'w \<Rightarrow> reg_task \<times> registry \<times> 'w" where
  "reg_task_turn env (Reg_Check req) s =
     (case register_refusal req (fst s) of
        Some refusal \<Rightarrow> (Reg_Done (Some refusal), s) | None \<Rightarrow> (Reg_Insert req, s))"
| "reg_task_turn env (Reg_Insert req) s = (Reg_Reply req, (register_insert env req s, snd s))"
| "reg_task_turn env (Reg_Reply req) s = (Reg_Done (register_reply req (fst s)), s)"
| "reg_task_turn env (Reg_Done reply) s = (Reg_Done reply, s)"

definition deregister_server :: "string \<Rightarrow> registry \<Rightarrow> (u16 \<times> api_body) \<times> registry" where
  "deregister_server alias r =
     (case remove_leaf alias r of
        (Some a, r') \<Rightarrow> ((200, ApiServer (to_server_info (entry r a))), r')
      | (None, r') \<Rightarrow>
          ((404, ApiError (''server '' @ [CHR 0x27] @ alias @ [CHR 0x27] @ '' not found'')), r'))"

definition list_servers :: "registry \<Rightarrow> u16 \<times> api_body" where
  "list_servers r = (200, ApiServers (map (\<lambda>a. to_server_info (entry r a)) (all_leaves r)))"

definition get_server :: "string \<Rightarrow> registry \<Rightarrow> u16 \<times> api_body" where
  "get_server alias r =
     (case get_leaf alias r of
        Some a \<Rightarrow> (200, ApiServer (to_server_info (entry r a)))
      | None \<Rightarrow> (404, ApiError (''server '' @ [CHR 0x27] @ alias @ [CHR 0x27] @ '' not found'')))"

section \<open>Facts\<close>

lemma get_server_leaf_at:
  "get_server k r =
     (case leaf_at r k of
        Some e \<Rightarrow> (200, ApiServer (to_server_info e))
      | None \<Rightarrow> (404, ApiError (''server '' @ [CHR 0x27] @ k @ [CHR 0x27] @ '' not found'')))"
  by (simp add: get_server_def leaf_at_def split: option.split)

lemma register_refusal_None:
  "register_refusal req r = None \<longleftrightarrow> alias_ok (rr_alias req) \<and> rr_url req \<noteq> [] \<and> leaf_at r (rr_alias req) = None"
  by (auto simp: register_refusal_def alias_ok_def str_simps leaf_at_def)

lemma register_refusal_Some: "register_refusal req r = Some reply \<Longrightarrow> \<exists>e. reply = (400, ApiError e) \<or> reply = (409, ApiError e)"
  by (auto simp: register_refusal_def split: if_splits)

lemma register_insert_put:
  "register_insert env req s = put_leaf (rr_alias req)
     (leaf_new_with_pool env (snd s) (register_config req) (pool_config (fst s))) (fst s)"
  by (simp add: register_insert_def put_leaf_def)

lemma register_config_alias [simp]: "sc_alias (register_config req) = rr_alias req"
  by (simp add: register_config_def)

lemma register_insert_facts:
  assumes "registry_ok (fst s)"
  shows "registry_ok (register_insert env req s)"
    and "leaf_at (register_insert env req s) = (leaf_at (fst s))(rr_alias req \<mapsto>
      leaf_new_with_pool env (snd s) (register_config req) (pool_config (fst s)))"
  unfolding register_insert_put
  by (rule rt.ok_put [OF assms]; simp) (simp add: fun_eq_iff rt.lookup_put [OF assms])

lemma register_reply_leaf_at:
  "register_reply req r = map_option (\<lambda>e. (201, ApiServer (to_server_info e))) (leaf_at r (rr_alias req))"
  by (simp add: register_reply_def leaf_at_def split: option.split)

lemma register_server_run:
  assumes "registry_ok r" and "register_server env req (r, w) = (reply, spawned, (r', w'))"
  shows "w' = w
    \<and> (if alias_ok (rr_alias req) \<and> rr_url req \<noteq> [] \<and> leaf_at r (rr_alias req) = None
       then (let e = leaf_new_with_pool env w (register_config req) (pool_config r)
             in reply = Some (201, ApiServer (to_server_info e)) \<and> spawned = Some (length (leaf_heap r))
                \<and> leaf_at r' = (leaf_at r)(rr_alias req \<mapsto> e) \<and> registry_ok r')
       else (\<exists>e. reply = Some (400, ApiError e) \<or> reply = Some (409, ApiError e)) \<and> r' = r \<and> spawned = None)"
proof (cases "register_refusal req r")
  case None
  with assms(2) have "r' = register_insert env req (r, w)" "reply = register_reply req r'" "w' = w"
    "spawned = Some (length (leaf_heap r))"
    by (auto simp: register_server_def Let_def)
  with None register_insert_facts [of "(r, w)" env req] assms(1) show ?thesis
    by (auto simp: register_refusal_None register_reply_leaf_at Let_def)
next
  case (Some refusal)
  with assms(2) register_refusal_None [of req r] register_refusal_Some [OF Some] show ?thesis
    by (auto simp: register_server_def)
qed

text \<open>C27: A registration is all or nothing: it is accepted exactly when the alias is non-empty, free
  of the separator and not in use and the URL is non-empty; then the registry gains exactly one fresh
  leaf under that alias, whose entry the reply describes; otherwise the reply is a client error and
  nothing changes.\<close>

theorem register_server_spec:
  assumes "registry_ok r" and "register_server env req (r, w) = (reply, spawned, (r', w'))"
  shows "w' = w
    \<and> (if alias_ok (rr_alias req) \<and> rr_url req \<noteq> [] \<and> leaf_at r (rr_alias req) = None
       then (let e = leaf_new_with_pool env w (register_config req) (pool_config r)
             in reply = Some (201, ApiServer (to_server_info e)) \<and> spawned = Some (length (leaf_heap r))
                \<and> leaf_at r' = (leaf_at r)(rr_alias req \<mapsto> e) \<and> registry_ok r')
       else (\<exists>e. reply = Some (400, ApiError e) \<or> reply = Some (409, ApiError e)) \<and> r' = r \<and> spawned = None)"
  using assms by (rule register_server_run)

definition sample_register :: register_request where
  "sample_register =
     \<lparr>rr_alias = ''github'', rr_url = ''http://gh/mcp'', rr_transport = HttpPost, rr_tags = [],
      rr_auth_token = None, rr_timeout_seconds = None\<rparr>"

lemma sample_register_ok: "alias_ok (rr_alias sample_register)" "rr_url sample_register \<noteq> []"
  by (simp_all add: sample_register_def alias_ok_def flip: str_contains_sublist)
    (simp add: str_contains_def)

theorem register_server_spec_witness:
  "let (reply, spawned, (r', w')) = register_server ok_env sample_register (sample_registry, 0)
   in reply \<noteq> None \<and> leaf_at r' ''github'' \<noteq> None \<and> leaf_at r' ''k8s'' = Some sample_leaf"
proof -
  obtain reply spawned r' w' where
    run: "register_server ok_env sample_register (sample_registry, 0) = (reply, spawned, (r', w'))"
    by (metis surj_pair)
  have al: "rr_alias sample_register = ''github''" by (simp add: sample_register_def)
  from register_server_spec [OF sample_registry_ok run] sample_register_ok show ?thesis
    by (simp add: run al Let_def)
qed

lemma deregister_server_leaf_at:
  "deregister_server k r =
     ((case leaf_at r k of
         Some e \<Rightarrow> (200, ApiServer (to_server_info e))
       | None \<Rightarrow> (404, ApiError (''server '' @ [CHR 0x27] @ k @ [CHR 0x27] @ '' not found''))),
      del_leaf k r)"
  by (simp add: deregister_server_def leaf_at_def del_leaf_def remove_leaf_def get_leaf_def split: option.split)

text \<open>Registration and removal are inverse: after registering, looking the server up describes it;
  after removing it again, it is gone and every other leaf is as it was before.\<close>

lemma register_deregister_roundtrip:
  assumes "registry_ok r" and "register_refusal req r = None"
    and "register_server env req (r, w) = (reply, spawned, (r1, w1))"
    and "deregister_server (rr_alias req) r1 = ((status2, body2), r2)"
  shows "\<exists>body. reply = Some (201, body) \<and> get_server (rr_alias req) r1 = (200, body) \<and> status2 = 200 \<and> body2 = body
    \<and> leaf_at r2 = leaf_at r \<and> fst (get_server (rr_alias req) r2) = 404"
proof -
  let ?e = "leaf_new_with_pool env w (register_config req) (pool_config r)"
  have free: "leaf_at r (rr_alias req) = None" using assms(2) by (simp add: register_refusal_None)
  have r1: "reply = Some (201, ApiServer (to_server_info ?e))" "leaf_at r1 = (leaf_at r)(rr_alias req \<mapsto> ?e)"
    "registry_ok r1"
    using register_server_run [OF assms(1,3)] assms(2) by (simp_all add: register_refusal_None Let_def)
  have r2: "r2 = del_leaf (rr_alias req) r1" "(status2, body2) = (200, ApiServer (to_server_info ?e))"
    using assms(4) r1(2) by (simp_all add: deregister_server_leaf_at)
  have "leaf_at r2 = leaf_at r"
    by (rule ext) (simp add: r2(1) rt.lookup_del [OF r1(3)] r1(2) free)
  then show ?thesis using r1 r2(2) free by (simp add: get_server_leaf_at)
qed

section \<open>Registrations that overlap\<close>

text \<open>
  Any number of registrations in progress, taking turns in any order, while other handlers and tasks
  remove leaves (a removal over the API, a reload, a discovery) or work on the entries and with the
  outside world (calls, monitors, refreshes, and the warm-ups the registrations themselves spawn).
\<close>

definition api_other :: "registry \<times> 'w \<Rightarrow> registry \<times> 'w \<Rightarrow> bool" where
  "api_other s s' \<longleftrightarrow> (snd s' = snd s \<and> (\<exists>k. fst s' = del_leaf k (fst s))) \<or> evolves (fst s) (fst s')"

abbreviation api_step ::
  "'w env \<Rightarrow> reg_task list \<times> registry \<times> 'w \<Rightarrow> reg_task list \<times> registry \<times> 'w \<Rightarrow> bool" where
  "api_step env \<equiv> pool_step (reg_task_turn env) api_other"

text \<open>Left alone, a task is the handler.\<close>

lemma reg_task_alone:
  "(case reg_task_turn env (Reg_Check req) s of
      (t1, s1) \<Rightarrow> case reg_task_turn env t1 s1 of (t2, s2) \<Rightarrow> reg_task_turn env t2 s2)
   = (case register_server env req s of (reply, spawned, s') \<Rightarrow> (Reg_Done reply, s'))"
  by (simp add: register_server_def Let_def split: option.split)













text \<open>C39: A registration is not atomic.  Two requests for the same free alias that both look before
  either adds are both answered 201, and the leaf of the one that added first is no longer in the table;
  and a request whose leaf is removed before it replies ends in a panic.\<close>

theorem registration_not_atomic:
  assumes "registry_ok r" and "rr_alias q1 = rr_alias q2"
    and "register_refusal q1 r = None" and "register_refusal q2 r = None"
  shows "(\<exists>r' b1 b2. (api_step env)\<^sup>*\<^sup>* ([Reg_Check q1, Reg_Check q2], (r, w))
              ([Reg_Done (Some (201, b1)), Reg_Done (Some (201, b2))], (r', w))
            \<and> members r' = (members r)(rr_alias q2 \<mapsto> register_config q2))
    \<and> (\<exists>r'. (api_step env)\<^sup>*\<^sup>* ([Reg_Check q1], (r, w)) ([Reg_Done None], (r', w)))"
proof -
  let ?r1 = "register_insert env q1 (r, w)" and ?r2 = "register_insert env q2 (register_insert env q1 (r, w), w)"
  note f1 = register_insert_facts [of "(r, w)" env q1]
  have ok1: "registry_ok ?r1" and at1: "leaf_at ?r1 (rr_alias q1) \<noteq> None" using f1 assms(1) by simp_all
  note f2 = register_insert_facts [of "(?r1, w)" env q2]
  obtain b1 where b1: "register_reply q1 ?r1 = Some (201, b1)"
    using at1 by (auto simp: register_reply_leaf_at)
  obtain b2 where b2: "register_reply q2 ?r2 = Some (201, b2)"
    using f2 ok1 by (auto simp: register_reply_leaf_at)
  have "schedule (reg_task_turn env) [0, 1, 0, 0, 1, 1] ([Reg_Check q1, Reg_Check q2], (r, w)) =
      ([Reg_Done (Some (201, b1)), Reg_Done (Some (201, b2))], (?r2, w))"
    using assms(3,4) b1 b2 by simp
  then have "(api_step env)\<^sup>*\<^sup>* ([Reg_Check q1, Reg_Check q2], (r, w))
      ([Reg_Done (Some (201, b1)), Reg_Done (Some (201, b2))], (?r2, w))"
    by (rule schedule_reaches) simp
  moreover have "members ?r2 = (members r)(rr_alias q2 \<mapsto> register_config q2)"
    using f1 f2 ok1 assms(1,2) by (auto simp: members_def fun_eq_iff)
  ultimately have both: "\<exists>r' b1 b2. (api_step env)\<^sup>*\<^sup>* ([Reg_Check q1, Reg_Check q2], (r, w))
      ([Reg_Done (Some (201, b1)), Reg_Done (Some (201, b2))], (r', w)) \<and> members r' = (members r)(rr_alias q2 \<mapsto> register_config q2)"
    by blast
  have "register_reply q1 (del_leaf (rr_alias q1) ?r1) = None"
    by (simp add: register_reply_leaf_at rt.lookup_del [OF ok1])
  then have "schedule (reg_task_turn env) [0] ([Reg_Reply q1], (del_leaf (rr_alias q1) ?r1, w)) =
      ([Reg_Done None], (del_leaf (rr_alias q1) ?r1, w))" by simp
  then have "(api_step env)\<^sup>*\<^sup>* ([Reg_Reply q1], (del_leaf (rr_alias q1) ?r1, w)) ([Reg_Done None], (del_leaf (rr_alias q1) ?r1, w))"
    by (rule schedule_reaches) simp
  moreover have "schedule (reg_task_turn env) [0, 0] ([Reg_Check q1], (r, w)) = ([Reg_Reply q1], (?r1, w))"
    using assms(3) by simp
  then have "(api_step env)\<^sup>*\<^sup>* ([Reg_Check q1], (r, w)) ([Reg_Reply q1], (?r1, w))" by (rule schedule_reaches) simp
  moreover have "api_step env ([Reg_Reply q1], (?r1, w)) ([Reg_Reply q1], (del_leaf (rr_alias q1) ?r1, w))"
    by (rule pool_other) (auto simp: api_other_def)
  ultimately have "(api_step env)\<^sup>*\<^sup>* ([Reg_Check q1], (r, w)) ([Reg_Done None], (del_leaf (rr_alias q1) ?r1, w))"
    by (meson rtranclp_trans rtranclp.rtrancl_into_rtrancl)
  with both show ?thesis by blast
qed

theorem registration_not_atomic_witness:
  "\<exists>r' b1 b2. (api_step ok_env)\<^sup>*\<^sup>* ([Reg_Check sample_register, Reg_Check (sample_register\<lparr>rr_url := ''http://x''\<rparr>)],
       (sample_registry, 0)) ([Reg_Done (Some (201, b1)), Reg_Done (Some (201, b2))], (r', 0))
     \<and> map_option sc_url (members r' ''github'') = Some ''http://x''"
proof -
  let ?q = "sample_register\<lparr>rr_url := ''http://x''\<rparr>"
  have free: "register_refusal sample_register sample_registry = None" "register_refusal ?q sample_registry = None"
    using sample_register_ok by (simp_all add: register_refusal_None) (simp_all add: sample_register_def)
  have al: "rr_alias sample_register = rr_alias ?q" "rr_alias ?q = ''github''" by (simp_all add: sample_register_def)
  have cfg: "sc_url (register_config ?q) = ''http://x''" by (simp add: register_config_def)
  from registration_not_atomic [OF sample_registry_ok al(1) free, where env = ok_env and w = 0] al(2) cfg
  show ?thesis by fastforce
qed


end
