(* ===== verification/Fed_App.thy ===== *)
theory Fed_App
  imports Fed_Main Fed_Api
begin

text \<open>
  The HTTP application that \<open>build_router\<close> (\<open>src/src/main.rs\<close>) and \<open>router\<close> (\<open>src/src/api.rs\<close>) put
  together: the paths and methods, the bearer-token middleware in front of all of them, and the
  cross-origin layer in front of that.  What the web framework does with a matched request (reading a
  JSON body or a path segment, the pages of the API browser, preflight answers) is a parameter.
\<close>

section \<open>Requests and replies\<close>

record http_call =
  hq_method :: string
  hq_path :: string
  hq_headers :: headers
  hq_body :: string

text \<open>
  A reply of a handler, or one the framework makes with a status and a text; \<open>NoReply\<close> when the handler
  panicked and the connection just ends.
\<close>

datatype app_reply =
    McpReply http_reply
  | ApiReply u16 api_body
  | PlainReply u16 string
  | HtmlReply string
  | NoReply

text \<open>The reply to a \<open>HEAD\<close> request, which the framework derives from the one to \<open>GET\<close>.\<close>

fun head_of :: "app_reply \<Rightarrow> app_reply" where
  "head_of (McpReply r) = McpReply (r\<lparr>rp_body := EmptyBody\<rparr>)"
| "head_of (ApiReply status body) = PlainReply status []"
| "head_of (PlainReply status t) = PlainReply status []"
| "head_of (HtmlReply t) = PlainReply 200 []"
| "head_of NoReply = NoReply"

record ('w, 'tx) app =
  ap_srv :: "('w, 'tx) srv"
  ap_auth :: auth_state
  ap_rpc_body :: "headers \<Rightarrow> string \<Rightarrow> (u16 \<times> string) + json_rpc_request"
  ap_register_body :: "headers \<Rightarrow> string \<Rightarrow> (u16 \<times> string) + register_request"
  ap_path_param :: "string \<Rightarrow> (u16 \<times> string) + string"
  ap_metrics :: "'w \<Rightarrow> string"
  ap_swagger :: "string \<Rightarrow> string \<Rightarrow> u16 \<times> string"
  ap_preflight :: "headers \<Rightarrow> u16 \<times> string"

definition plain :: "u16 \<times> string \<Rightarrow> app_reply" where
  "plain p = PlainReply (fst p) (snd p)"

definition get_or_head :: "string \<Rightarrow> bool" where
  "get_or_head m \<longleftrightarrow> m = ''GET'' \<or> m = ''HEAD''"

section \<open>The registry API\<close>

definition set_registry :: "registry \<times> 'w \<Rightarrow> 'tx federation \<times> 'w \<Rightarrow> 'tx federation \<times> 'w" where
  "set_registry p s = ((fst s)\<lparr>fd_registry := fst p\<rparr>, snd p)"

definition post_servers ::
  "('w, 'tx) app \<Rightarrow> http_call \<Rightarrow> 'tx federation \<times> 'w \<Rightarrow> app_reply \<times> 'tx federation \<times> 'w" where
  "post_servers ap c s =
     (case ap_register_body ap (hq_headers c) (hq_body c) of
        Inl e \<Rightarrow> (plain e, s)
      | Inr req \<Rightarrow>
          (let (reply, spawned, p) =
                 register_server (sv_env (ap_srv ap)) req (fd_registry (fst s), snd s)
           in (case reply of Some (status, body) \<Rightarrow> ApiReply status body | None \<Rightarrow> NoReply,
               set_registry p s)))"

definition delete_server ::
  "('w, 'tx) app \<Rightarrow> string \<Rightarrow> 'tx federation \<times> 'w \<Rightarrow> app_reply \<times> 'tx federation \<times> 'w" where
  "delete_server ap segment s =
     (case ap_path_param ap segment of
        Inl e \<Rightarrow> (plain e, s)
      | Inr alias \<Rightarrow>
          (let ((status, body), r) = deregister_server alias (fd_registry (fst s))
           in (ApiReply status body, set_registry (r, snd s) s)))"

definition show_server ::
  "('w, 'tx) app \<Rightarrow> string \<Rightarrow> 'tx federation \<times> 'w \<Rightarrow> app_reply" where
  "show_server ap segment s =
     (case ap_path_param ap segment of
        Inl e \<Rightarrow> plain e
      | Inr alias \<Rightarrow> (let (status, body) = get_server alias (fd_registry (fst s)) in ApiReply status body))"

text \<open>The routes of the API on the rest of the path: \<open>/servers\<close> and \<open>/servers/{alias}\<close>.\<close>

definition api_router ::
  "('w, 'tx) app \<Rightarrow> string \<Rightarrow> http_call \<Rightarrow> 'tx federation \<times> 'w \<Rightarrow> app_reply \<times> 'tx federation \<times> 'w" where
  "api_router ap path c s =
     (if path = ''/servers'' then
        (if hq_method c = ''POST'' then post_servers ap c s
         else if get_or_head (hq_method c) then
           (let (status, body) = list_servers (fd_registry (fst s)) in (ApiReply status body, s))
         else (PlainReply 405 [], s))
      else case strip_prefix ''/servers/'' path of
             None \<Rightarrow> (PlainReply 404 [], s)
           | Some segment \<Rightarrow>
               if segment = [] \<or> CHR ''/'' \<in> set segment then (PlainReply 404 [], s)
               else if get_or_head (hq_method c) then (show_server ap segment s, s)
               else if hq_method c = ''DELETE'' then delete_server ap segment s
               else (PlainReply 405 [], s))"

section \<open>The application\<close>

definition mcp_endpoint ::
  "('w, 'tx) app \<Rightarrow> http_call \<Rightarrow> request_context option \<Rightarrow> 'tx federation \<times> 'w
   \<Rightarrow> app_reply \<times> 'tx federation \<times> 'w" where
  "mcp_endpoint ap c ctx s =
     (if hq_method c = ''POST'' then
        (case ap_rpc_body ap (hq_headers c) (hq_body c) of
           Inl e \<Rightarrow> (plain e, s)
         | Inr request \<Rightarrow>
             (let (reply, s') = handle_mcp (ap_srv ap) (hq_headers c) ctx request s in (McpReply reply, s')))
      else if get_or_head (hq_method c) then
        (let (reply, s') = get_mcp (ap_srv ap) (hq_headers c) s in (McpReply reply, s'))
      else if hq_method c = ''DELETE'' then
        (let (reply, s') = delete_mcp (hq_headers c) s in (McpReply reply, s'))
      else (PlainReply 405 [], s))"

text \<open>\<open>healthz\<close>, \<open>metrics_handler\<close> and \<open>status_handler\<close>, which only read.\<close>

definition healthz :: app_reply where
  "healthz = PlainReply 200 ''ok''"

definition metrics_handler :: "('w, 'tx) app \<Rightarrow> 'w \<Rightarrow> app_reply" where
  "metrics_handler ap w = PlainReply 200 (ap_metrics ap w)"

definition status_handler :: "('w, 'tx) app \<Rightarrow> 'tx federation \<times> 'w \<Rightarrow> app_reply" where
  "status_handler ap s =
     HtmlReply (render_status_html (\<lambda>a. clock (sv_env (ap_srv ap)) (snd s)) (fd_registry (fst s)))"

definition read_only :: "http_call \<Rightarrow> app_reply \<Rightarrow> app_reply" where
  "read_only c reply = (if get_or_head (hq_method c) then reply else PlainReply 405 [])"

definition endpoint ::
  "('w, 'tx) app \<Rightarrow> http_call \<Rightarrow> request_context option \<Rightarrow> 'tx federation \<times> 'w
   \<Rightarrow> app_reply \<times> 'tx federation \<times> 'w" where
  "endpoint ap c ctx s =
     (let path = hq_path c
      in if path = ''/mcp'' then mcp_endpoint ap c ctx s
         else if path = ''/healthz'' then (read_only c healthz, s)
         else if path = ''/metrics'' then (read_only c (metrics_handler ap (snd s)), s)
         else if path = ''/status'' then (read_only c (status_handler ap s), s)
         else if prefix ''/swagger-ui'' path \<or> path = ''/openapi.json''
           then (plain (ap_swagger ap (hq_method c) path), s)
         else case strip_prefix ''/api/v1'' path of
                Some rest \<Rightarrow> api_router ap rest c s
              | None \<Rightarrow> (PlainReply 404 [], s))"

text \<open>The whole of \<open>build_router\<close>; the layer added last is the outermost.\<close>

definition http_app ::
  "('w, 'tx) app \<Rightarrow> http_call \<Rightarrow> 'tx federation \<times> 'w \<Rightarrow> app_reply \<times> 'tx federation \<times> 'w" where
  "http_app ap c s =
     (if hq_method c = ''OPTIONS'' then (plain (ap_preflight ap (hq_headers c)), s)
      else case auth_middleware (sv_env (ap_srv ap)) (snd s) (ap_auth ap) (hq_path c)
                  (hq_headers c ''authorization'') of
             None \<Rightarrow> (PlainReply 401 [], s)
           | Some ctx \<Rightarrow>
               (let (reply, s') = endpoint ap c ctx s
                in (if hq_method c = ''HEAD'' then head_of reply else reply, s')))"

section \<open>Facts: nothing without authentication\<close>

lemma open_path_inert: "skip_auth (hq_path c) \<Longrightarrow> snd (endpoint ap c ctx s) = s"
  by (auto simp: endpoint_def skip_auth_def Let_def)

lemma http_app_passed:
  assumes "hq_method c \<noteq> ''OPTIONS''"
    and "auth_middleware (sv_env (ap_srv ap)) (snd s) (ap_auth ap) (hq_path c) (hq_headers c ''authorization'') = Some ctx"
  shows "snd (http_app ap c s) = snd (endpoint ap c ctx s)"
    and "hq_method c \<noteq> ''HEAD'' \<Longrightarrow> http_app ap c s = endpoint ap c ctx s"
  using assms by (simp_all add: http_app_def split_beta)

lemma auth_unknown:
  assumes "resolve_token env w auth = Some admin" and "\<not> skip_auth path"
    and "\<nexists>tok. authorization = Some (''Bearer '' @ tok) \<and> (tok = admin \<or> tok \<in> cc_token ` set (au_clients auth))"
  shows "auth_middleware env w auth path authorization = None"
proof (cases "Option.bind authorization (\<lambda>v. strip_prefix ''Bearer '' v)")
  case None
  with assms(1,2) show ?thesis by (simp add: auth_middleware_def)
next
  case (Some tok)
  then have a: "authorization = Some (''Bearer '' @ tok)"
    by (auto simp: bind_eq_Some_conv strip_prefix_Some)
  with assms(3) have "tok \<noteq> admin" "tok \<notin> cc_token ` set (au_clients auth)" by auto
  then have "resolve tok admin (au_clients auth) = None"
    using resolve_clients_None [of tok 0 "au_clients auth"] by (simp add: resolve_def)
  with assms(1,2) Some show ?thesis by (simp add: auth_middleware_def)
qed

text \<open>C5: Nothing happens without authentication: with a token in force, a request that presents neither
  the administrator's token nor that of a client changes nothing at all, whatever its method, path,
  headers and body; unless it is a preflight or asks for one of the open pages, it is answered 401.\<close>

theorem unauthenticated_inert:
  assumes "resolve_token (sv_env (ap_srv ap)) (snd s) (ap_auth ap) = Some admin"
    and "\<nexists>tok. hq_headers c ''authorization'' = Some (''Bearer '' @ tok)
           \<and> (tok = admin \<or> tok \<in> cc_token ` set (au_clients (ap_auth ap)))"
  shows "snd (http_app ap c s) = s
    \<and> (hq_method c = ''OPTIONS'' \<or> skip_auth (hq_path c) \<or> http_app ap c s = (PlainReply 401 [], s))"
proof (cases "hq_method c = ''OPTIONS''")
  case False
  show ?thesis
  proof (cases "skip_auth (hq_path c)")
    case True
    then have "auth_middleware (sv_env (ap_srv ap)) (snd s) (ap_auth ap) (hq_path c)
        (hq_headers c ''authorization'') = Some None"
      using assms(1) by (simp add: auth_middleware_def)
    from http_app_passed(1) [OF False this] True show ?thesis by (simp add: open_path_inert)
  next
    case open_path: False
    from auth_unknown [OF assms(1) open_path assms(2)] False show ?thesis by (simp add: http_app_def)
  qed
qed (simp add: http_app_def)

definition sample_app :: "string list \<Rightarrow> (nat, nat) app" where
  "sample_app grants =
     \<lparr>ap_srv = sample_srv,
      ap_auth = \<lparr>au_token = Some ''root'', au_token_file = None,
                 au_clients = [\<lparr>cc_token = ''team'', cc_allowed_servers = grants\<rparr>]\<rparr>,
      ap_rpc_body = (\<lambda>h b. Inr (sample_call b)), ap_register_body = (\<lambda>h b. Inr sample_register),
      ap_path_param = Inr, ap_metrics = (\<lambda>w. []), ap_swagger = (\<lambda>m p. (200, [])),
      ap_preflight = (\<lambda>h. (200, []))\<rparr>"

definition sample_http :: "string \<Rightarrow> string \<Rightarrow> string \<Rightarrow> string \<Rightarrow> http_call" where
  "sample_http m path tok body =
     \<lparr>hq_method = m, hq_path = path,
      hq_headers = (\<lambda>k. if k = ''authorization'' then Some (''Bearer '' @ tok) else None), hq_body = body\<rparr>"

lemma sample_app_sel [simp]:
  "ap_srv (sample_app g) = sample_srv" "ap_path_param (sample_app g) = Inr"
  "ap_rpc_body (sample_app g) h b = Inr (sample_call b)" "ap_register_body (sample_app g) h b = Inr sample_register"
  "resolve_token e w (ap_auth (sample_app g)) = Some ''root''"
  "au_clients (ap_auth (sample_app g)) = [\<lparr>cc_token = ''team'', cc_allowed_servers = g\<rparr>]"
  by (simp_all add: sample_app_def resolve_token_def)

lemma sample_http_sel [simp]:
  "hq_method (sample_http m p t b) = m" "hq_path (sample_http m p t b) = p"
  "hq_headers (sample_http m p t b) ''authorization'' = Some (''Bearer '' @ t)"
  "hq_body (sample_http m p t b) = b"
  by (simp_all add: sample_http_def)

theorem unauthenticated_inert_witness:
  "http_app (sample_app []) (sample_http ''DELETE'' ''/api/v1/servers/k8s'' ''guess'' []) (sample_federation [], 0)
   = (PlainReply 401 [], (sample_federation [], 0))"
  using unauthenticated_inert [of "sample_app []" "(sample_federation [], 0)" "''root''"
      "sample_http ''DELETE'' ''/api/v1/servers/k8s'' ''guess'' []"]
  by (simp add: skip_auth_def)

section \<open>Facts: refused requests\<close>

text \<open>C9: A refused \<open>POST /mcp\<close> never reaches a leaf.  Without authentication the answer is 401 and
  nothing changes; when the framework cannot read the body, the answer is the framework's and nothing
  changes; otherwise the handler answers, with 200, or with 403 or 404 and nothing changes, or with
  429 and the registry, the subscriptions, the pending refreshes and the outside world are exactly as
  before.\<close>

theorem refused_request_has_no_effect:
  assumes "hq_method c = ''POST''" and "hq_path c = ''/mcp''" and "http_app ap c s = (reply, s')"
  shows "case auth_middleware (sv_env (ap_srv ap)) (snd s) (ap_auth ap) ''/mcp'' (hq_headers c ''authorization'') of
      None \<Rightarrow> reply = PlainReply 401 [] \<and> s' = s
    | Some ctx \<Rightarrow>
        (case ap_rpc_body ap (hq_headers c) (hq_body c) of
           Inl (status, t) \<Rightarrow> reply = PlainReply status t \<and> s' = s
         | Inr request \<Rightarrow>
             (\<exists>r. reply = McpReply r
                \<and> (rp_status r = 200
                   \<or> rp_status r \<in> {403, 404} \<and> s' = s
                   \<or> rp_status r = 429 \<and> backend s' = backend s)))"
proof (cases "auth_middleware (sv_env (ap_srv ap)) (snd s) (ap_auth ap) ''/mcp'' (hq_headers c ''authorization'')")
  case None
  with assms show ?thesis by (simp add: http_app_def)
next
  case (Some ctx)
  then have run: "mcp_endpoint ap c ctx s = (reply, s')"
    using http_app_passed(2) [of c ap s ctx] assms by (simp add: endpoint_def)
  show ?thesis
  proof (cases "ap_rpc_body ap (hq_headers c) (hq_body c)")
    case (Inl e)
    with run assms(1) Some show ?thesis by (simp add: mcp_endpoint_def plain_def split_beta)
  next
    case (Inr request)
    with run assms(1) obtain r where r: "reply = McpReply r"
      "handle_mcp (ap_srv ap) (hq_headers c) ctx request s = (r, s')"
      by (auto simp: mcp_endpoint_def split_beta prod_eq_iff)
    with handle_mcp_refused [OF r(2)] Some Inr show ?thesis by auto
  qed
qed

text \<open>A call without the required origin, and one with an unknown token.\<close>

theorem refused_request_has_no_effect_witness:
  "(\<exists>r. http_app (sample_app [''k8s'']) (sample_http ''POST'' ''/mcp'' ''team'' ''k8s__pods'') (sample_federation [''http://ok''], 0)
        = (McpReply r, (sample_federation [''http://ok''], 0)) \<and> rp_status r = 403)
   \<and> http_app (sample_app [''k8s'']) (sample_http ''POST'' ''/mcp'' ''guess'' ''k8s__pods'') (sample_federation [], 0)
        = (PlainReply 401 [], (sample_federation [], 0))"
proof (rule conjI)
  let ?ap = "sample_app [''k8s'']" and ?c = "sample_http ''POST'' ''/mcp'' ''team'' ''k8s__pods''"
    and ?s = "(sample_federation [''http://ok''], 0)"
  obtain reply s' where run: "http_app ?ap ?c ?s = (reply, s')" by (rule prod.exhaust)
  have "\<exists>ctx. auth_middleware (sv_env (ap_srv ?ap)) (snd ?s) (ap_auth ?ap) ''/mcp'' (hq_headers ?c ''authorization'') = Some ctx"
    using strip_prefix_append [of "''Bearer ''" "''team''"]
    by (simp add: auth_middleware_def skip_auth_def resolve_def)
  then obtain ctx where ctx: "auth_middleware (sv_env (ap_srv ?ap)) (snd ?s) (ap_auth ?ap) ''/mcp''
      (hq_headers ?c ''authorization'') = Some ctx" ..
  from refused_request_has_no_effect [OF _ _ run] ctx obtain r where r: "reply = McpReply r"
    "rp_status r = 200 \<or> rp_status r \<in> {403, 404} \<and> s' = ?s \<or> rp_status r = 429 \<and> backend s' = backend ?s"
    by auto
  have "http_app ?ap ?c ?s = (McpReply (text_reply 403 ''origin not allowed''), ?s)"
    using http_app_passed(2) [of ?c ?ap ?s ctx] ctx
    by (simp add: endpoint_def mcp_endpoint_def handle_mcp_def check_origin_def sample_federation_def sample_http_def)
  with run r show "\<exists>r. http_app ?ap ?c ?s = (McpReply r, ?s) \<and> rp_status r = 403" by (auto simp: text_reply_def)
next
  let ?ap = "sample_app [''k8s'']" and ?c = "sample_http ''POST'' ''/mcp'' ''guess'' ''k8s__pods''"
    and ?s = "(sample_federation [], 0)"
  obtain reply s' where run: "http_app ?ap ?c ?s = (reply, s')" by (rule prod.exhaust)
  have "auth_middleware (sv_env (ap_srv ?ap)) (snd ?s) (ap_auth ?ap) ''/mcp'' (hq_headers ?c ''authorization'') = None"
    by (rule auth_unknown [where admin = "''root''"]) (auto simp: skip_auth_def)
  with refused_request_has_no_effect [OF _ _ run] run show "http_app ?ap ?c ?s = (PlainReply 401 [], ?s)" by simp
qed

section \<open>Facts: what a request does to the table of leaves\<close>

lemma post_servers_run:
  "snd (post_servers ap c s) = s
   \<or> (\<exists>req. snd (post_servers ap c s) =
          set_registry (snd (snd (register_server (sv_env (ap_srv ap)) req (fd_registry (fst s), snd s)))) s)"
  by (cases "ap_register_body ap (hq_headers c) (hq_body c)") (auto simp: post_servers_def split_beta)

lemma delete_server_run:
  "snd (delete_server ap segment s) = s
   \<or> (\<exists>a. snd (delete_server ap segment s) =
          set_registry (snd (deregister_server a (fd_registry (fst s))), snd s) s)"
  by (cases "ap_path_param ap segment") (auto simp: delete_server_def split_beta)

lemma api_router_registry:
  obtains (keep) "snd (api_router ap path c s) = s"
    | (add) req where "hq_method c = ''POST''" "path = ''/servers''"
        "snd (api_router ap path c s) =
           set_registry (snd (snd (register_server (sv_env (ap_srv ap)) req (fd_registry (fst s), snd s)))) s"
    | (remove) a where "hq_method c = ''DELETE''" "prefix ''/servers/'' path"
        "snd (api_router ap path c s) = set_registry (snd (deregister_server a (fd_registry (fst s))), snd s) s"
proof (cases "path = ''/servers''")
  case True
  then show thesis
    using keep add post_servers_run [of ap c s]
    by (cases "hq_method c = ''POST''") (auto simp: api_router_def split_beta)
next
  case other: False
  show thesis
  proof (cases "strip_prefix ''/servers/'' path")
    case None
    with other keep show thesis by (simp add: api_router_def)
  next
    case (Some seg)
    then have "prefix ''/servers/'' path" by (auto simp: strip_prefix_Some)
    with Some other keep remove delete_server_run [of ap seg s] show thesis
      by (cases "hq_method c = ''DELETE''"; cases "seg = [] \<or> CHR ''/'' \<in> set seg")
        (auto simp: api_router_def get_or_head_def)
  qed
qed

text \<open>The state after a request, up to the table of leaves.\<close>

lemma http_app_cases:
  obtains (same) "snd (http_app ap c s) = s"
    | (post) ctx request where
        "snd (http_app ap c s) = snd (handle_mcp (ap_srv ap) (hq_headers c) ctx request s)"
    | (get) "snd (http_app ap c s) = snd (get_mcp (ap_srv ap) (hq_headers c) s)"
    | (delete) "snd (http_app ap c s) = snd (delete_mcp (hq_headers c) s)"
    | (add) req where "hq_method c = ''POST''" "hq_path c = ''/api/v1/servers''"
        "snd (http_app ap c s) =
           set_registry (snd (snd (register_server (sv_env (ap_srv ap)) req (fd_registry (fst s), snd s)))) s"
    | (remove) a where "hq_method c = ''DELETE''" "prefix ''/api/v1/servers/'' (hq_path c)"
        "snd (http_app ap c s) = set_registry (snd (deregister_server a (fd_registry (fst s))), snd s) s"
proof (cases "hq_method c = ''OPTIONS'' \<or> auth_middleware (sv_env (ap_srv ap)) (snd s) (ap_auth ap) (hq_path c)
    (hq_headers c ''authorization'') = None")
  case True
  then show thesis using same by (auto simp: http_app_def)
next
  case False
  then obtain ctx where "snd (http_app ap c s) = snd (endpoint ap c ctx s)"
    using http_app_passed(1) by blast
  note run = this
  show thesis
  proof (cases "hq_path c = ''/mcp''")
    case True
    with run same post get delete show thesis
      by (auto simp: endpoint_def mcp_endpoint_def split_beta split: sum.splits if_splits)
  next
    case other: False
    show thesis
    proof (cases "skip_auth (hq_path c)")
      case True
      with run same show thesis by (simp add: open_path_inert)
    next
      case False
      with run other have e: "snd (http_app ap c s) =
          (case strip_prefix ''/api/v1'' (hq_path c) of
             Some rest \<Rightarrow> snd (api_router ap rest c s) | None \<Rightarrow> s)"
        by (simp add: endpoint_def skip_auth_def Let_def split: option.split)
      show thesis
      proof (cases "strip_prefix ''/api/v1'' (hq_path c)")
        case None
        with e same show thesis by simp
      next
        case (Some rest)
        then have p: "hq_path c = ''/api/v1'' @ rest" by (simp add: strip_prefix_Some)
        from Some e have run: "snd (http_app ap c s) = snd (api_router ap rest c s)" by simp
        show thesis
          by (rule api_router_registry [of ap rest c s]; use p run same add remove in \<open>auto simp: prefix_def\<close>)
      qed
    qed
  qed
qed

section \<open>Facts: what a client's token opens\<close>

lemma client_token_passes:
  assumes "resolve_token env w auth = Some admin" and "\<not> skip_auth path" and "tok \<noteq> admin"
    and "find (\<lambda>cl. cc_token cl = tok) (au_clients auth) = Some cl"
  obtains ctx where "auth_middleware env w auth path (Some (''Bearer '' @ tok)) = Some (Some ctx)"
    and "allows_alias ctx = client_grants cl"
proof -
  have "tok \<in> cc_token ` set (au_clients auth)" using find_first_entry [OF assms(4)] by force
  then obtain ctx where ctx: "resolve tok admin (au_clients auth) = Some ctx"
    using assms(3) resolve_clients_None [of tok 0 "au_clients auth"] by (auto simp: resolve_def)
  then have "allows_alias ctx = client_grants cl"
    using resolve_clients_grants [of tok 0 "au_clients auth" ctx] assms(3,4) by (auto simp: resolve_def)
  moreover have "auth_middleware env w auth path (Some (''Bearer '' @ tok)) = Some (Some ctx)"
    using assms(1,2) ctx strip_prefix_append [of "''Bearer ''" tok] by (simp add: auth_middleware_def)
  ultimately show thesis by (rule that [rotated])
qed

lemma backend_limiter [simp]: "backend (st\<lparr>fd_rate_limiter := l\<rparr>, w) = backend (st, w)"
  by (simp add: backend_def)

lemma handle_mcp_backend:
  assumes "\<And>st. backend (snd (dispatch sv request (extract_session_id h)
      (case ctx of Some c \<Rightarrow> c | None \<Rightarrow> anonymous_ctx) (st, snd s))) = backend (st, snd s)"
    and "rq_method request \<noteq> ''initialize''"
  shows "backend (snd (handle_mcp sv h ctx request s)) = backend s"
proof -
  have op: "snd (open_session sv request resp s2) = s2" for resp s2
    using assms(2) by (simp add: open_session_def)
  show ?thesis
    using session_gate_Inr [of sv request "extract_session_id h" s]
    by (auto simp: handle_mcp_def Let_def split_beta op assms(1) split: sum.split)
qed

text \<open>C6: End to end, a client is confined to the leaves its entry grants: with a token in force, a
  tool call under a client's token to a leaf that the first entry with that token does not list has
  no effect on the registry, the subscriptions or the outside world; no leaf is contacted.\<close>

theorem client_confined:
  assumes "resolve_token (sv_env (ap_srv ap)) (snd s) (ap_auth ap) = Some admin"
    and "hq_headers c ''authorization'' = Some (''Bearer '' @ tok)" and "tok \<noteq> admin"
    and "find (\<lambda>cl. cc_token cl = tok) (au_clients (ap_auth ap)) = Some cl"
    and "hq_method c = ''POST''" and "hq_path c = ''/mcp''"
    and "ap_rpc_body ap (hq_headers c) (hq_body c) = Inr request"
    and "rq_method request = ''tools/call''"
    and "parse_namespaced_name (param_str request ''name'') = Some (a, x)"
    and "\<not> client_grants cl a"
  shows "backend (snd (http_app ap c s)) = backend s"
proof -
  have np: "\<not> skip_auth (hq_path c)" by (simp add: assms(6) skip_auth_def)
  obtain ctx where ctx: "auth_middleware (sv_env (ap_srv ap)) (snd s) (ap_auth ap) (hq_path c)
      (hq_headers c ''authorization'') = Some (Some ctx)" "allows_alias ctx = client_grants cl"
    using client_token_passes [OF assms(1) np assms(3,4)] assms(2) by metis
  have "snd (http_app ap c s) = snd (handle_mcp (ap_srv ap) (hq_headers c) (Some ctx) request s)"
    using http_app_passed(1) [OF _ ctx(1)] assms(5-7) by (simp add: endpoint_def mcp_endpoint_def split_beta)
  also have "backend \<dots> = backend s"
    using assms(8-10) ctx(2)
    by (intro handle_mcp_backend) (simp_all add: dispatch_def handle_tools_call_def Let_def)
  finally show ?thesis .
qed

theorem client_confined_witness:
  "backend (snd (http_app (sample_app [''github'']) (sample_http ''POST'' ''/mcp'' ''team'' ''k8s__pods'')
      (sample_federation [], 0))) = backend (sample_federation [], 0)"
proof -
  have p: "parse_namespaced_name (param_str (sample_call ''k8s__pods'') ''name'') = Some (''k8s'', ''pods'')"
    by (simp add: parse_namespaced_name_def NAMESPACE_SEPARATOR_def split_once_def)
  show ?thesis
    by (rule client_confined [where admin = "''root''" and tok = "''team''"
          and cl = "\<lparr>cc_token = ''team'', cc_allowed_servers = [''github'']\<rparr>"
          and request = "sample_call ''k8s__pods''", OF _ _ _ _ _ _ _ _ p])
      (simp_all add: client_grants_def)
qed

text \<open>C40: The registry API is not subject to the clients' restrictions: whatever its entry grants, any
  client can remove any leaf from the federation.\<close>

theorem any_client_can_deregister:
  assumes "registry_ok (fd_registry (fst s))"
    and "resolve_token (sv_env (ap_srv ap)) (snd s) (ap_auth ap) = Some admin"
    and "hq_headers c ''authorization'' = Some (''Bearer '' @ tok)" and "tok \<in> cc_token ` set (au_clients (ap_auth ap))"
    and "hq_method c = ''DELETE''" and "hq_path c = ''/api/v1/servers/'' @ segment"
    and "segment \<noteq> []" and "CHR ''/'' \<notin> set segment" and "ap_path_param ap segment = Inr a"
  shows "leaf_at (fd_registry (fst (snd (http_app ap c s)))) = (leaf_at (fd_registry (fst s)))(a := None)"
proof -
  have np: "\<not> skip_auth (hq_path c)" by (simp add: assms(6) skip_auth_def)
  obtain ctx where "resolve tok admin (au_clients (ap_auth ap)) = Some ctx"
    using assms(4) resolve_clients_None [of tok 0 "au_clients (ap_auth ap)"]
    by (cases "resolve tok admin (au_clients (ap_auth ap))") (auto simp: resolve_def split: if_splits)
  then have "auth_middleware (sv_env (ap_srv ap)) (snd s) (ap_auth ap) (hq_path c)
      (hq_headers c ''authorization'') = Some (Some ctx)"
    using assms(2,3) np strip_prefix_append [of "''Bearer ''" tok] by (simp add: auth_middleware_def)
  moreover have "strip_prefix ''/api/v1'' (hq_path c) = Some (''/servers/'' @ segment)"
    using strip_prefix_append [of "''/api/v1''" "''/servers/'' @ segment"] by (simp add: assms(6))
  ultimately have "fd_registry (fst (snd (http_app ap c s))) = snd (deregister_server a (fd_registry (fst s)))"
    using http_app_passed(1) [of c ap s] assms(5-9) strip_prefix_append [of "''/servers/''" segment]
    by (simp add: endpoint_def api_router_def delete_server_def get_or_head_def set_registry_def split_beta Let_def)
  also have "\<dots> = del_leaf a (fd_registry (fst s))"
    by (simp add: deregister_server_def del_leaf_def split: prod.split option.split)
  finally show ?thesis using assms(1) by (auto simp: fun_eq_iff rt.lookup_del)
qed

theorem any_client_can_deregister_witness:
  "leaf_at (fd_registry (sample_federation [])) ''k8s'' \<noteq> None
   \<and> leaf_at (fd_registry (fst (snd (http_app (sample_app [''github''])
        (sample_http ''DELETE'' ''/api/v1/servers/k8s'' ''team'' []) (sample_federation [], 0))))) ''k8s'' = None"
proof -
  have r: "fd_registry (sample_federation []) = sample_registry" by (simp add: sample_federation_def)
  have "leaf_at (fd_registry (fst (snd (http_app (sample_app [''github''])
        (sample_http ''DELETE'' ''/api/v1/servers/k8s'' ''team'' []) (sample_federation [], 0)))))
      = (leaf_at (fd_registry (fst (sample_federation [], 0 :: nat))))(''k8s'' := None)"
    by (rule any_client_can_deregister [where admin = "''root''" and tok = "''team''" and segment = "''k8s''"])
      (simp_all add: r)
  then show ?thesis by (simp add: r)
qed

end
