(* ===== verification/Fed_Dns.thy ===== *)
theory Fed_Dns
  imports Fed_Router
begin

text \<open>
  Discovery through DNS SRV records (\<open>src/src/dns_discovery.rs\<close>): reading the resolver's output and
  bringing the registry in line with it.  The \<open>dig\<close> program is a parameter.
\<close>

definition DNS_ALIAS_PREFIX :: string where
  "DNS_ALIAS_PREFIX = ''dns-''"

record srv_record =
  sr_port :: u16
  sr_target :: string

section \<open>Reading the records\<close>

definition parse_srv_line :: "string \<Rightarrow> srv_record option" where
  "parse_srv_line line =
     (case split_whitespace line of
        (priority # weight # port # target # rest) \<Rightarrow>
          (case parse_u16 port of
             None \<Rightarrow> None
           | Some p \<Rightarrow>
               (let t = trim_end_matches ''.'' target
                in if t = [] then None else Some \<lparr>sr_port = p, sr_target = t\<rparr>))
      | _ \<Rightarrow> None)"

definition parse_srv_output :: "string \<Rightarrow> srv_record list" where
  "parse_srv_output stdout = List.map_filter parse_srv_line (str_lines stdout)"

text \<open>
  The outcome of running \<open>dig\<close>: it could not be started, or its exit status (whether it is a
  success, and its text), standard output and standard error as text.
\<close>

type_synonym 'w dig = "string \<Rightarrow> 'w \<Rightarrow> (string + (bool \<times> string) \<times> string \<times> string) \<times> 'w"

definition query_srv :: "'w dig \<Rightarrow> string \<Rightarrow> 'w \<Rightarrow> (string + srv_record list) \<times> 'w" where
  "query_srv dig name w =
     (case dig name w of
        (Inl e, w') \<Rightarrow> (Inl (''failed to run dig: '' @ e), w')
      | (Inr ((success, status), stdout, stderr), w') \<Rightarrow>
          if \<not> success then (Inl (''dig exited '' @ status @ '': '' @ str_trim stderr), w')
          else (Inr (parse_srv_output stdout), w'))"

section \<open>Aliases\<close>

text \<open>
  One character of a host name.  A character outside ASCII is several bytes and becomes one hyphen:
  its continuation bytes are dropped.
\<close>

definition alias_char :: "char \<Rightarrow> string" where
  "alias_char c =
     (let n = of_char c :: nat
      in if (97 \<le> n \<and> n \<le> 122) \<or> (48 \<le> n \<and> n \<le> 57) \<or> n = 45 then [c]
         else if 0x80 \<le> n \<and> n \<le> 0xBF then [] else ''-'')"

definition sanitize_alias :: "string \<Rightarrow> string" where
  "sanitize_alias target =
     DNS_ALIAS_PREFIX @ concat (map alias_char (to_ascii_lowercase (trim_end_matches ''.'' target)))"

section \<open>Reconciliation\<close>

definition desired :: "srv_record list \<Rightarrow> (string, srv_record) hmap" where
  "desired records = fold (\<lambda>r. hm_insert (sanitize_alias (sr_target r)) r) records hm_empty"

definition dns_config :: "dns_discovery_config \<Rightarrow> string \<Rightarrow> srv_record \<Rightarrow> server_config" where
  "dns_config config alias record =
     \<lparr>sc_alias = alias,
      sc_url = scheme config @ ''://'' @ sr_target record @ '':'' @ show_nat (unat (sr_port record))
                 @ url_path config,
      sc_auth_token = None, sc_auth_token_file = None, sc_transport = dns_default_transport config,
      sc_tags = [''dns-discovered''], sc_health_check = default_health_check_config,
      sc_timeout_seconds = None, sc_tls = default_tls_config\<rparr>"

definition dns_entry ::
  "'w env \<Rightarrow> 'w \<Rightarrow> connection_pool_config \<Rightarrow> dns_discovery_config \<Rightarrow> string \<times> srv_record \<Rightarrow> leaf_entry" where
  "dns_entry env w pool config p = leaf_new_with_pool env w (dns_config config (fst p) (snd p)) pool"

text \<open>The registry afterwards; each added entry also gets a \<open>warm_leaf\<close> task.\<close>

definition reconcile ::
  "'w env \<Rightarrow> dns_discovery_config \<Rightarrow> srv_record list \<Rightarrow> registry \<times> 'w \<Rightarrow> registry \<times> 'w" where
  "reconcile env config records s =
     (let (r, w) = s;
          want = desired records;
          existing = filter (\<lambda>a. prefix DNS_ALIAS_PREFIX a) (aliases r);
          added = filter (\<lambda>p. fst p \<notin> set existing) want;
          gone = filter (\<lambda>a. a \<notin> set (hm_keys want)) existing;
          r1 = fold (\<lambda>p. put_leaf (fst p) (dns_entry env w (pool_config r) config p)) added r
      in (fold del_leaf gone r1, w))"

definition poll_once ::
  "'w env \<Rightarrow> 'w dig \<Rightarrow> dns_discovery_config \<Rightarrow> registry \<times> 'w \<Rightarrow> (string + unit) \<times> registry \<times> 'w" where
  "poll_once env dig config s =
     (case query_srv dig (srv_name config) (snd s) of
        (Inl e, w) \<Rightarrow> (Inl e, (fst s, w))
      | (Inr records, w) \<Rightarrow> (Inr (), reconcile env config records (fst s, w)))"

text \<open>Whether the task is spawned at all, and its interval.\<close>

definition spawn_dns_discovery :: "dns_discovery_config \<Rightarrow> duration option" where
  "spawn_dns_discovery config =
     (if \<not> dns_enabled config then None
      else if str_trim (srv_name config) = [] then None
      else Some (duration_from_secs (max (poll_interval_seconds config) 1)))"

text \<open>The task after its first tick: one poll for each further tick; a failed one is only logged.\<close>

primrec dns_rounds :: "'w env \<Rightarrow> 'w dig \<Rightarrow> dns_discovery_config \<Rightarrow> nat \<Rightarrow> registry \<times> 'w \<Rightarrow> registry \<times> 'w" where
  "dns_rounds env dig config 0 s = s"
| "dns_rounds env dig config (Suc n) s = dns_rounds env dig config n (snd (poll_once env dig config s))"

section \<open>Facts\<close>

lemma sanitize_prefix: "prefix DNS_ALIAS_PREFIX (sanitize_alias t)"
  by (simp add: sanitize_alias_def)

lemma desired_wf: "hm_wf (desired records)"
proof -
  have "hm_wf m \<Longrightarrow> hm_wf (fold (\<lambda>r. hm_insert (sanitize_alias (sr_target r)) r) records m)" for m
    by (induction records arbitrary: m) (simp_all add: hm_simps)
  then show ?thesis by (simp add: desired_def hm_simps)
qed

lemma desired_get:
  "hm_get (desired records) k = find (\<lambda>r. sanitize_alias (sr_target r) = k) (rev records)"
proof -
  have "hm_get (fold (\<lambda>r. hm_insert (sanitize_alias (sr_target r)) r) records m) k =
      (case find (\<lambda>r. sanitize_alias (sr_target r) = k) (rev records) of
         None \<Rightarrow> hm_get m k | Some r \<Rightarrow> Some r)" for m
  proof (induction records arbitrary: m)
    case (Cons r rs)
    have snoc: "find P (xs @ [y]) = (case find P xs of None \<Rightarrow> (if P y then Some y else None) | Some x \<Rightarrow> Some x)"
      for P xs and y :: srv_record by (induction xs) auto
    from Cons show ?case by (auto simp: snoc hm_simps split: option.split)
  qed simp
  then show ?thesis by (simp add: desired_def hm_simps split: option.split)
qed

lemma desired_prefix: "hm_get (desired records) k = Some r \<Longrightarrow> prefix DNS_ALIAS_PREFIX k"
  using sanitize_prefix by (auto simp: desired_get find_Some_iff)

lemma dns_entry_ok:
  "list_all (\<lambda>p. entry_ok (dns_entry env w pool config p)
     \<and> sc_alias (le_config (dns_entry env w pool config p)) = fst p) ps"
  by (simp add: list_all_iff dns_entry_def dns_config_def)

lemma reconcile_ok: "registry_ok (fst s) \<Longrightarrow> registry_ok (fst (reconcile env config records s))"
  by (auto simp: reconcile_def Let_def split_beta intro!: rt.ok_fold_del rt.ok_fold_put dns_entry_ok)

lemma poll_once_ok:
  "registry_ok (fst s) \<Longrightarrow> registry_ok (fst (snd (poll_once env dig config s)))"
  by (auto simp: poll_once_def reconcile_ok split: prod.split sum.split)

lemma reconcile_at:
  assumes "registry_ok r" and "reconcile env config records (r, w) = (r', w')"
  shows "leaf_at r' k =
     (if prefix DNS_ALIAS_PREFIX k
      then case find (\<lambda>x. sanitize_alias (sr_target x) = k) (rev records) of
             None \<Rightarrow> None
           | Some x \<Rightarrow>
               (case leaf_at r k of
                  Some e \<Rightarrow> Some e
                | None \<Rightarrow> Some (leaf_new_with_pool env w (dns_config config k x) (pool_config r)))
      else leaf_at r k)"
proof -
  let ?want = "desired records" and ?ex = "filter (\<lambda>a. prefix DNS_ALIAS_PREFIX a) (aliases r)"
  let ?added = "filter (\<lambda>p. fst p \<notin> set ?ex) ?want"
  let ?gone = "filter (\<lambda>a. a \<notin> set (hm_keys ?want)) ?ex"
  let ?val = "dns_entry env w (pool_config r) config"
  have good: "list_all (\<lambda>p. entry_ok (?val p) \<and> sc_alias (le_config (?val p)) = fst p) ?added"
    by (rule dns_entry_ok)
  have dist: "distinct (map fst ?added)"
    using desired_wf [of records] by (simp add: hm_wf_def distinct_map_filter)
  have disj: "set ?gone \<inter> fst ` set ?added = {}" by auto
  have r': "r' = fold del_leaf ?gone (fold (\<lambda>p. put_leaf (fst p) (?val p)) ?added r)"
    using assms(2) by (auto simp: reconcile_def Let_def)
  have ex: "k \<in> set ?ex \<longleftrightarrow> prefix DNS_ALIAS_PREFIX k \<and> leaf_at r k \<noteq> None"
    by (auto simp: aliases_leaf_at)
  have keys: "k \<in> set (hm_keys ?want) \<longleftrightarrow> hm_get ?want k \<noteq> None" by (simp add: hm.set_keys)
  have fnd: "find (\<lambda>p. fst p = k) ?added =
      (if k \<in> set ?ex then None else map_option (Pair k) (hm_get ?want k))"
  proof -
    have "find (\<lambda>p. fst p = k) (filter (\<lambda>p. fst p \<notin> X) m) =
        (if k \<in> X then None else map_option (Pair k) (map_of m k))" for X and m :: "(string, srv_record) hmap"
      by (induction m) auto
    then show ?thesis by (simp only: hm_get_def)
  qed
  have "leaf_at r' k = (if k \<in> set ?gone then None
      else case find (\<lambda>p. fst p = k) ?added of Some p \<Rightarrow> Some (?val p) | None \<Rightarrow> leaf_at r k)"
    unfolding r' by (rule rt.lookup_sync [OF assms(1) good dist disj])
  then show ?thesis
    using ex keys fnd desired_prefix [of records k] desired_get [of records k]
    by (auto simp: dns_entry_def split: option.splits)
qed

text \<open>Polling settles: while the resolver gives the same answer, the first poll does everything and every
  further one leaves the table as it is.\<close>

lemma poll_once_records:
  assumes "fst (query_srv dig (srv_name config) w) = Inr records"
  obtains w1 where "snd (poll_once env dig config (r, w)) = reconcile env config records (r, w1)"
  using assms by (cases "query_srv dig (srv_name config) w") (simp add: poll_once_def)

lemma dns_rounds_settle:
  assumes "registry_ok r" and "\<And>w. fst (query_srv dig (srv_name config) w) = Inr records"
  shows "leaf_at (fst (dns_rounds env dig config (Suc n) (r, w))) = leaf_at (fst (dns_rounds env dig config 1 (r, w)))"
proof -
  let ?want = "\<lambda>k. find (\<lambda>x. sanitize_alias (sr_target x) = k) (rev records)"
  let ?agrees = "\<lambda>r. registry_ok r \<and> (\<forall>k. prefix DNS_ALIAS_PREFIX k \<longrightarrow> (leaf_at r k = None \<longleftrightarrow> ?want k = None))"
  have step: "?agrees (fst (snd (poll_once env dig config (q, v)))) \<and>
      (?agrees q \<longrightarrow> leaf_at (fst (snd (poll_once env dig config (q, v)))) = leaf_at q)" if q: "registry_ok q" for q v
  proof -
    obtain v1 where p: "snd (poll_once env dig config (q, v)) = reconcile env config records (q, v1)"
      by (rule poll_once_records [OF assms(2)])
    obtain q' v' where run: "reconcile env config records (q, v1) = (q', v')" by (metis surj_pair)
    note at = reconcile_at [OF q run]
    have "registry_ok q'" using reconcile_ok [of "(q, v1)" env config records] q by (simp add: run)
    then show ?thesis using at by (auto simp: p run fun_eq_iff split: option.splits)
  qed
  have keep: "leaf_at (fst (dns_rounds env dig config n (q, v))) = leaf_at q" if "?agrees q" for n q v
    using that
  proof (induction n arbitrary: q v)
    case (Suc n)
    obtain q' v' where p: "snd (poll_once env dig config (q, v)) = (q', v')" by (metis surj_pair)
    with step [of q v] Suc show ?case by auto
  qed simp
  obtain q' v' where p: "snd (poll_once env dig config (r, w)) = (q', v')" by (metis surj_pair)
  with step [OF assms(1), of w] keep [of q' n v'] show ?thesis by simp
qed

text \<open>C20: The registry follows the record and nothing else: after a reconciliation every alias of the
  DNS namespace is registered exactly when some advertised target maps to it (the last such target
  counts); an alias that was already registered keeps its entry, a new one gets a fresh entry with
  the URL of its target; and no leaf outside the namespace is touched.\<close>

theorem dns_reconcile_spec:
  assumes "registry_ok r" and "reconcile env config records (r, w) = (r', w')"
  shows "leaf_at r' k =
     (if prefix DNS_ALIAS_PREFIX k
      then case find (\<lambda>x. sanitize_alias (sr_target x) = k) (rev records) of
             None \<Rightarrow> None
           | Some x \<Rightarrow>
               (case leaf_at r k of
                  Some e \<Rightarrow> Some e
                | None \<Rightarrow> Some (leaf_new_with_pool env w (dns_config config k x) (pool_config r)))
      else leaf_at r k)"
  using assms by (rule reconcile_at)

theorem dns_reconcile_spec_witness:
  "let config = default_dns_discovery_config;
       r' = fst (reconcile ok_env config [\<lparr>sr_port = 8080, sr_target = ''A.svc''\<rparr>] (sample_registry, 0))
   in map_option (\<lambda>e. sc_url (le_config e)) (leaf_at r' ''dns-a-svc'') = Some ''http://A.svc:8080/mcp''
      \<and> leaf_at r' ''k8s'' = Some sample_leaf"
proof -
  let ?config = default_dns_discovery_config and ?rs = "[\<lparr>sr_port = 8080, sr_target = ''A.svc''\<rparr>]"
  obtain r' w' where run: "reconcile ok_env ?config ?rs (sample_registry, 0) = (r', w')"
    by (cases "reconcile ok_env ?config ?rs (sample_registry, 0)")
  have al: "sanitize_alias ''A.svc'' = ''dns-a-svc''"
    by (simp add: sanitize_alias_def DNS_ALIAS_PREFIX_def trim_end_matches_def trim_end_of_def
        trim_start_of.simps to_ascii_lowercase_def ascii_lower_def alias_char_def char_of_def bit_Suc_0_iff Let_def)
  have n: "show_nat 8080 = ''8080''"
    by (simp add: show_nat.simps digit_char_def char_of_def bit_Suc_0_iff)
  show ?thesis
    unfolding Let_def run fst_conv
    using dns_reconcile_spec [OF sample_registry_ok run, of "''dns-a-svc''"]
      dns_reconcile_spec [OF sample_registry_ok run, of "''k8s''"]
    by (simp add: al n DNS_ALIAS_PREFIX_def dns_config_def default_dns_discovery_config_def)
qed

end
