(* ===== verification/Fed_Calendar.thy ===== *)
theory Fed_Calendar
  imports Fed_Prelude "HOL-Library.Signed_Division"
begin

text \<open>
  The calendar of the time stamps in \<open>src/src/crd_discovery.rs\<close>: the conversion of a day number to
  year, month and day that \<open>rfc3339_from_unix\<close> contains, and its correctness against the rules of the
  Gregorian calendar.
\<close>

text \<open>Day 0 is 1970-01-01.  The division that gives the era is the signed one of \<open>i64\<close>, which rounds
  towards zero; the divisions after it are on numbers that are not negative.\<close>

definition civil_from_days :: "int \<Rightarrow> int \<times> int \<times> int" where
  "civil_from_days days =
     (let z = days + 719468;
          era = (if z \<ge> 0 then z else z - 146096) sdiv 146097;
          doe = z - era * 146097;
          yoe = (doe - doe div 1460 + doe div 36524 - doe div 146096) div 365;
          y = yoe + era * 400;
          doy = doe - (365 * yoe + yoe div 4 - yoe div 100);
          mp = (5 * doy + 2) div 153;
          day = doy - (153 * mp + 2) div 5 + 1;
          month = (if mp < 10 then mp + 3 else mp - 9);
          year = (if month \<le> 2 then y + 1 else y)
      in (year, month, day))"

section \<open>The calendar\<close>

definition leap_year :: "int \<Rightarrow> bool" where
  "leap_year y \<longleftrightarrow> y mod 4 = 0 \<and> (y mod 100 \<noteq> 0 \<or> y mod 400 = 0)"

definition month_length :: "int \<Rightarrow> int \<Rightarrow> int" where
  "month_length y m =
     (if m = 2 then (if leap_year y then 29 else 28) else if m \<in> {4, 6, 9, 11} then 30 else 31)"

fun next_day :: "int \<times> int \<times> int \<Rightarrow> int \<times> int \<times> int" where
  "next_day (y, m, d) =
     (if d < month_length y m then (y, m, d + 1)
      else if m < 12 then (y, m + 1, 1)
      else (y + 1, 1, 1))"

section \<open>Years of an era\<close>

text \<open>
  An era has 400 years that begin in March; \<open>year_start y\<close> is the first day of year \<open>y\<close> and
  \<open>year_of\<close> the year the program finds.
\<close>

definition year_start :: "int \<Rightarrow> int" where
  "year_start y = 365 * y + y div 4 - y div 100 + y div 400"

definition scaled :: "int \<Rightarrow> int" where
  "scaled doe = doe - doe div 1460 + doe div 36524 - doe div 146096"

definition year_of :: "int \<Rightarrow> int" where
  "year_of doe = scaled doe div 365"

lemma scaled_step:
  assumes "0 \<le> n" "n < 146096"
  shows "scaled n \<le> scaled (n + 1)"
proof -
  have "(n + 1) div 1460 \<le> (n + 1460) div 1460" "n div 36524 \<le> (n + 1) div 36524"
    by (rule zdiv_mono1; simp)+
  moreover have "(n + 1) div 146096 = n div 146096 \<or> n + 1 = 146096" using assms by auto
  ultimately show ?thesis using assms by (auto simp: scaled_def div_add_self2)
qed

lemma scaled_mono:
  assumes "0 \<le> m" "m \<le> n" "n \<le> 146096"
  shows "scaled m \<le> scaled n"
proof -
  have "scaled m \<le> scaled (m + int k)" if "m + int k \<le> 146096" for k
    using that
  proof (induction k)
    case (Suc k)
    with scaled_step [of "m + int k"] assms(1) show ?case by (auto simp: ac_simps)
  qed simp
  from this [of "nat (n - m)"] assms show ?thesis by simp
qed

text \<open>The scaling is right at both ends of each year.\<close>

lemma year_bounds_all:
  "list_all (\<lambda>y. 365 * y \<le> scaled (year_start y) \<and> scaled (year_start (y + 1) - 1) < 365 * (y + 1)) [0..399]"
  by code_simp

lemma year_of_unique:
  assumes "0 \<le> y" "y < 400" "year_start y \<le> doe" "doe < year_start (y + 1)"
  shows "year_of doe = y"
proof -
  have b: "365 * y \<le> scaled (year_start y)" "scaled (year_start (y + 1) - 1) < 365 * (y + 1)"
    using year_bounds_all assms(1,2) by (auto simp: list_all_iff)
  have s: "0 \<le> year_start y" "year_start (y + 1) \<le> 146097"
    using assms(1,2) by (auto simp: year_start_def)
  have "scaled (year_start y) \<le> scaled doe" "scaled doe \<le> scaled (year_start (y + 1) - 1)"
    using assms s by (auto intro!: scaled_mono)
  with b have "365 * y \<le> scaled doe" "scaled doe < 365 * (y + 1)" by linarith+
  then show ?thesis by (simp add: year_of_def int_div_pos_eq [of _ _ y "scaled doe - 365 * y"])
qed

lemma div_step: "0 < (k :: int) \<Longrightarrow> (y + 1) div k = y div k + (if k dvd y + 1 then 1 else 0)"
proof -
  assume k: "0 < k"
  have y: "y = k * (y div k) + y mod k" "0 \<le> y mod k" "y mod k < k" using k by simp_all
  show ?thesis
  proof (cases "y mod k = k - 1")
    case True
    then have "y + 1 = k * (y div k + 1)" using y(1) by (simp add: distrib_left)
    then show ?thesis using k by (metis dvd_triv_left less_irrefl nonzero_mult_div_cancel_left)
  next
    case False
    with y(3) have "y mod k + 1 < k" by simp
    then have "(y + 1) div k = y div k" "(y + 1) mod k = y mod k + 1"
      using y k int_div_pos_eq [of "y + 1" k "y div k" "y mod k + 1"]
        int_mod_pos_eq [of "y + 1" k "y div k" "y mod k + 1"] by auto
    then show ?thesis using y(2) by (auto simp: dvd_eq_mod_eq_0)
  qed
qed

lemma leap_year_dvd: "leap_year y \<longleftrightarrow> 4 dvd y \<and> (\<not> 100 dvd y \<or> 400 dvd y)"
  by (simp add: leap_year_def dvd_eq_mod_eq_0)

lemma year_start_next:
  "year_start (y + 1) = year_start y + (if leap_year (y + 1) then 366 else 365)"
proof -
  have d: "4 dvd y + 1" if "100 dvd y + 1" using that by (rule dvd_trans [rotated]) simp
  have e: "100 dvd y + 1" if "400 dvd y + 1" using that by (rule dvd_trans [rotated]) simp
  have "year_start (y + 1) = year_start y + 365 + (if 4 dvd y + 1 then 1 else 0)
      - (if 100 dvd y + 1 then 1 else 0) + (if 400 dvd y + 1 then 1 else 0)"
    unfolding year_start_def div_step [of 4 y, simplified] div_step [of 100 y, simplified]
      div_step [of 400 y, simplified] by (simp only: algebra_simps)
  then show ?thesis using d e unfolding leap_year_dvd by presburger
qed

section \<open>Months of a year\<close>

text \<open>The month, counted from March, and the day of a day of the year.\<close>

definition month_of :: "int \<Rightarrow> int" where
  "month_of doy = (5 * doy + 2) div 153"

definition day_of :: "int \<Rightarrow> int" where
  "day_of doy = doy - (153 * month_of doy + 2) div 5 + 1"

definition civil_month :: "int \<Rightarrow> int" where
  "civil_month mp = (if mp < 10 then mp + 3 else mp - 9)"

definition civil_date :: "int \<Rightarrow> int \<Rightarrow> int \<times> int \<times> int" where
  "civil_date y doy =
     (let m = civil_month (month_of doy) in (if m \<le> 2 then y + 1 else y, m, day_of doy))"

text \<open>Within a year that begins in March only its last month, February, depends on the year.\<close>

definition month_step_ok :: "int \<Rightarrow> bool" where
  "month_step_ok doy \<longleftrightarrow>
     (let m = civil_month (month_of doy); d = day_of doy;
          m' = civil_month (month_of (doy + 1)); d' = day_of (doy + 1)
      in if m = 2 then m' = 2 \<and> d' = d + 1 \<and> (if doy < 364 then d < 28 else d = 28)
         else doy < 364 \<and> 1 \<le> m \<and> m \<le> 12 \<and>
              (if d < month_length 0 m then m' = m \<and> d' = d + 1
               else m' = (if m < 12 then m + 1 else 1) \<and> d' = 1))"

lemma month_steps_all: "list_all month_step_ok [0..364]"
  by code_simp

lemma month_length_other: "m \<noteq> 2 \<Longrightarrow> month_length y m = month_length 0 m"
  by (simp add: month_length_def)

lemma month_step:
  assumes "0 \<le> doy" "doy < 365"
  shows "next_day (civil_date y doy) =
     (if doy = 364 \<and> \<not> leap_year (y + 1) then (y + 1, 3, 1) else civil_date y (doy + 1))"
proof -
  have st: "month_step_ok doy" using month_steps_all assms by (simp add: list_all_iff)
  show ?thesis
  proof (cases "civil_month (month_of doy) = 2")
    case True
    with st assms show ?thesis
      by (cases "doy = 364")
        (auto simp: month_step_ok_def civil_date_def Let_def month_length_def split: if_splits)
  next
    case False
    with st month_length_other [OF False, of y] month_length_other [OF False, of "y + 1"] show ?thesis
      by (simp add: month_step_ok_def civil_date_def Let_def split: if_splits)
  qed
qed

lemma month_step_leap: "leap_year (y + 1) \<Longrightarrow> next_day (civil_date y 365) = civil_date (y + 1) 0"
  by (simp add: civil_date_def month_of_def day_of_def civil_month_def month_length_def)

text \<open>The year of an era in which a day lies.\<close>

lemma year_exists:
  assumes "0 \<le> doe" "doe < 146097"
  shows "\<exists>y. 0 \<le> y \<and> y < 400 \<and> year_start y \<le> doe \<and> doe < year_start (y + 1)"
proof -
  have "\<exists>y. 0 \<le> y \<and> y < int n \<and> year_start y \<le> doe \<and> doe < year_start (y + 1)"
    if "doe < year_start (int n)" for n
    using that
  proof (induction n)
    case 0
    with assms show ?case by (simp add: year_start_def)
  next
    case (Suc n)
    then show ?case
      by (cases "doe < year_start (int n)") (force, intro exI [of _ "int n"], simp add: ac_simps)
  qed
  from this [of 400] assms show ?thesis by (simp add: year_start_def)
qed

section \<open>Correctness of the conversion\<close>

lemma era_div: "0 \<le> z \<Longrightarrow> z sdiv (146097 :: int) = z div 146097"
  by (simp add: signed_divide_int_def sgn_if)

lemma civil_from_days_era:
  assumes "0 \<le> y" "y < 400" "year_start y \<le> doe" "doe < year_start (y + 1)" "0 \<le> era"
    and "days + 719468 = era * 146097 + doe"
  shows "civil_from_days days = civil_date (y + era * 400) (doe - year_start y)"
proof -
  have doe: "0 \<le> doe" "doe < 146097"
    using assms(1-4) by (auto simp: year_start_def)
  have z: "(days + 719468) div 146097 = era" "0 \<le> days + 719468" "days + 719468 - era * 146097 = doe"
    using assms(5,6) doe int_div_pos_eq [of "days + 719468" 146097 era doe] by auto
  have yoe: "(doe - doe div 1460 + doe div 36524 - doe div 146096) div 365 = y"
    using year_of_unique [OF assms(1-4)] by (simp only: year_of_def scaled_def)
  have ys: "365 * y + y div 4 - y div 100 = year_start y" using assms(1,2) by (simp add: year_start_def)
  show ?thesis
    unfolding civil_from_days_def Let_def if_P [OF z(2)] era_div [OF z(2)] z(1,3) yoe ys
    by (simp only: civil_date_def month_of_def day_of_def civil_month_def Let_def)
qed

lemma leap_year_era: "leap_year (y + era * 400) \<longleftrightarrow> leap_year y"
proof -
  have "k dvd y + era * 400 \<longleftrightarrow> k dvd y" if "k dvd 400" for k
    by (rule dvd_add_left_iff) (use that in simp)
  then show ?thesis by (simp add: leap_year_dvd)
qed

lemma civil_date_0: "civil_date y 0 = (y, 3, 1)"
  by (simp add: civil_date_def month_of_def day_of_def civil_month_def)

lemma year_end:
  assumes "doy = (if leap_year (y + 1) then 365 else 364)"
  shows "next_day (civil_date y doy) = civil_date (y + 1) 0"
  using assms month_step [of 364 y] month_step_leap [of y] by (simp add: civil_date_0)

lemma civil_from_days_step:
  assumes "0 \<le> days"
  shows "civil_from_days (days + 1) = next_day (civil_from_days days)"
proof -
  define era doe where ed: "era = (days + 719468) div 146097" "doe = (days + 719468) mod 146097"
  have z: "days + 719468 = era * 146097 + doe" "0 \<le> doe" "doe < 146097" "0 \<le> era"
    using assms by (simp_all add: ed div_mult_mod_eq)
  obtain y where y: "0 \<le> y" "y < 400" "year_start y \<le> doe" "doe < year_start (y + 1)"
    using year_exists [OF z(2,3)] by blast
  let ?Y = "y + era * 400" and ?doy = "doe - year_start y"
  note here = civil_from_days_era [OF y z(4,1)]
  have len: "year_start (y + 1) = year_start y + (if leap_year (?Y + 1) then 366 else 365)"
    using year_start_next [of y] leap_year_era [of "y + 1" era] by (simp add: ac_simps)
  show ?thesis
  proof (cases "doe + 1 < year_start (y + 1)")
    case True
    have "civil_from_days (days + 1) = civil_date ?Y (doe + 1 - year_start y)"
      by (rule civil_from_days_era) (use y z True in auto)
    moreover have "next_day (civil_date ?Y ?doy) = civil_date ?Y (?doy + 1)"
      using month_step [of ?doy ?Y] y(3) True len by (simp split: if_splits)
    ultimately show ?thesis by (simp add: here algebra_simps)
  next
    case False
    then have eq: "doe + 1 = year_start (y + 1)" using y(4) by simp
    then have "?doy = (if leap_year (?Y + 1) then 365 else 364)" using len by (simp split: if_splits)
    then have "next_day (civil_date ?Y ?doy) = civil_date (?Y + 1) 0" by (rule year_end)
    moreover have "civil_from_days (days + 1) = civil_date (?Y + 1) 0"
    proof (cases "y + 1 = 400")
      case True
      then have "doe + 1 = 146097" using eq by (simp add: year_start_def)
      then have "civil_from_days (days + 1) = civil_date (0 + (era + 1) * 400) (0 - year_start 0)"
        using z by (intro civil_from_days_era) (auto simp: year_start_def)
      with True show ?thesis by (simp add: year_start_def algebra_simps)
    next
      case False
      have "year_start (y + 1) < year_start (y + 1 + 1)" by (subst (2) year_start_next) simp
      with False have "civil_from_days (days + 1) =
          civil_date (y + 1 + era * 400) (year_start (y + 1) - year_start (y + 1))"
        using y z eq by (intro civil_from_days_era) auto
      then show ?thesis by (simp add: algebra_simps)
    qed
    ultimately show ?thesis by (simp add: here)
  qed
qed

text \<open>C36: The conversion of day numbers is the Gregorian calendar: day 0 is the first of January 1970, and
  each following day is the next one of the calendar, with its months, leap years and centuries.\<close>

theorem civil_from_days_correct:
  "civil_from_days (int n) = (next_day ^^ n) (1970, 1, 1)"
proof (induction n)
  case 0
  show ?case by code_simp
next
  case (Suc n)
  with civil_from_days_step [of "int n"] show ?case by (simp add: ac_simps)
qed

end
