(* ===== verification/Fed_Crd.thy ===== *)
theory Fed_Crd
  imports Fed_Router Fed_Calendar
begin

text \<open>
  Discovery through Kubernetes custom resources (\<open>src/src/crd_discovery.rs\<close>): the reconciliation of
  one \<open>MCPServer\<close> object, the status task it spawns, and the start of the watcher.  The Kubernetes API
  is a parameter.
\<close>

definition CRD_ALIAS_PREFIX :: string where
  "CRD_ALIAS_PREFIX = ''crd-''"

definition FINALIZER :: string where
  "FINALIZER = ''federation.mcp.io/cleanup''"

record mcp_server_spec =
  ms_alias :: string
  ms_url :: string
  ms_transport :: string
  ms_tags :: "string list"
  ms_auth_token :: "string option"
  ms_auth_token_file :: "string option"
  ms_timeout_seconds :: "u64 option"

text \<open>The object: the parts of its metadata that are read, and the specification.\<close>

record mcp_server =
  mo_namespace :: "string option"
  mo_name :: string
  mo_deleting :: bool
  mo_finalizers :: "string list"
  mo_spec :: mcp_server_spec

record mcp_server_status =
  st_health :: "string option"
  st_tool_count :: "int option"
  st_last_synced :: "string option"

datatype reconcile_error = InvalidTransport string | KubeError string

datatype action = AwaitChange | Requeue duration

text \<open>The Kubernetes API: merge patches of an object and of its status, by namespace and name.\<close>

datatype watch_scope = AllNamespaces | OneNamespace string

record 'w kube =
  kube_connect :: "'w \<Rightarrow> (string + unit) \<times> 'w"
  kube_list :: "watch_scope \<Rightarrow> 'w \<Rightarrow> (string + unit) \<times> 'w"
  kube_patch :: "string \<Rightarrow> string \<Rightarrow> json \<Rightarrow> 'w \<Rightarrow> (string + unit) \<times> 'w"
  kube_patch_status :: "string \<Rightarrow> string \<Rightarrow> json \<Rightarrow> 'w \<Rightarrow> (string + unit) \<times> 'w"
  kube_since_epoch :: "'w \<Rightarrow> duration option"

definition crd_alias :: "string \<Rightarrow> string \<Rightarrow> string" where
  "crd_alias namespace name = CRD_ALIAS_PREFIX @ namespace @ ''-'' @ name"

definition parse_transport :: "string \<Rightarrow> reconcile_error + transport_type" where
  "parse_transport s =
     (if s = ''http-post'' then Inr HttpPost
      else if s = ''streamable-http'' then Inr StreamableHttp
      else Inl (InvalidTransport s))"

section \<open>Time stamps\<close>

text \<open>\<open>{:0<width>}\<close> on a non-negative number.\<close>

definition zero_pad :: "nat \<Rightarrow> int \<Rightarrow> string" where
  "zero_pad width n = (let s = show_nat (nat n) in replicate (width - length s) (CHR ''0'') @ s)"

definition rfc3339_from_unix :: "u64 \<Rightarrow> string" where
  "rfc3339_from_unix secs =
     (let days = int (unat secs div 86400);
          sod = int (unat secs mod 86400);
          hour = sod div 3600;
          minute = (sod mod 3600) div 60;
          second = sod mod 60;
          (year, month, day) = civil_from_days days
      in zero_pad 4 year @ ''-'' @ zero_pad 2 month @ ''-'' @ zero_pad 2 day @ ''T'' @ zero_pad 2 hour
         @ '':'' @ zero_pad 2 minute @ '':'' @ zero_pad 2 second @ ''Z'')"

definition rfc3339_now :: "'w kube \<Rightarrow> 'w \<Rightarrow> string" where
  "rfc3339_now kube w = rfc3339_from_unix (unix_now (kube_since_epoch kube w))"

section \<open>Reconciliation\<close>

definition finalizers_patch :: "string list \<Rightarrow> json" where
  "finalizers_patch fs =
     json_obj [(''metadata'', json_obj [(''finalizers'', JArray (map JString fs))])]"

definition crd_config :: "string \<Rightarrow> transport_type \<Rightarrow> mcp_server_spec \<Rightarrow> server_config" where
  "crd_config alias transport spec =
     \<lparr>sc_alias = alias, sc_url = ms_url spec, sc_auth_token = ms_auth_token spec,
      sc_auth_token_file = ms_auth_token_file spec, sc_transport = transport,
      sc_tags = ms_tags spec @ [''crd-discovered''], sc_health_check = default_health_check_config,
      sc_timeout_seconds = ms_timeout_seconds spec, sc_tls = default_tls_config\<rparr>"

text \<open>The result, the address for which the status task is spawned, and the new state.\<close>

definition crd_reconcile ::
  "'w env \<Rightarrow> 'w kube \<Rightarrow> connection_pool_config \<Rightarrow> mcp_server \<Rightarrow> registry \<times> 'w
   \<Rightarrow> (reconcile_error + action) \<times> nat option \<times> registry \<times> 'w" where
  "crd_reconcile env kube pool obj s =
     (let (r, w) = s;
          namespace = (case mo_namespace obj of Some n \<Rightarrow> n | None \<Rightarrow> []);
          name = mo_name obj;
          alias = crd_alias namespace name
      in if mo_deleting obj then
           (if FINALIZER \<in> set (mo_finalizers obj) then
              (let r1 = snd (remove_leaf alias r);
                   remaining = filter (\<lambda>f. f \<noteq> FINALIZER) (mo_finalizers obj)
               in case kube_patch kube namespace name (finalizers_patch remaining) w of
                    (Inl e, w1) \<Rightarrow> (Inl (KubeError e), None, (r1, w1))
                  | (Inr _, w1) \<Rightarrow> (Inr AwaitChange, None, (r1, w1)))
            else (Inr AwaitChange, None, s))
         else if FINALIZER \<notin> set (mo_finalizers obj) then
           (case kube_patch kube namespace name (finalizers_patch (mo_finalizers obj @ [FINALIZER])) w of
              (Inl e, w1) \<Rightarrow> (Inl (KubeError e), None, (r, w1))
            | (Inr _, w1) \<Rightarrow> (Inr (Requeue (duration_from_secs 1)), None, (r, w1)))
         else
           (case parse_transport (ms_transport (mo_spec obj)) of
              Inl e \<Rightarrow> (Inl e, None, s)
            | Inr transport \<Rightarrow>
                (let entry = leaf_new_with_pool env w (crd_config alias transport (mo_spec obj)) pool;
                     r1 = snd (add_leaf alias entry r)
                 in (Inr (Requeue (duration_from_secs 300)), Some (length (leaf_heap r)), (r1, w)))))"

definition error_policy :: "reconcile_error \<Rightarrow> action" where
  "error_policy e = Requeue (duration_from_secs 30)"

text \<open>
  The spawned task: warm the leaf up, then write the status back; its failure is only logged.
  \<open>as i32\<close> reads the count modulo \<open>2 ^ 32\<close>.
\<close>

definition status_to_json :: "mcp_server_status \<Rightarrow> json" where
  "status_to_json st =
     json_obj
       [(''health'', case st_health st of None \<Rightarrow> JNull | Some h \<Rightarrow> JString h),
        (''toolCount'', case st_tool_count st of None \<Rightarrow> JNull | Some n \<Rightarrow> JNum (JInt n)),
        (''lastSynced'', case st_last_synced st of None \<Rightarrow> JNull | Some t \<Rightarrow> JString t)]"

definition crd_status_task ::
  "'w env \<Rightarrow> 'w kube \<Rightarrow> string \<Rightarrow> string \<Rightarrow> nat \<Rightarrow> registry \<times> 'w \<Rightarrow> registry \<times> 'w" where
  "crd_status_task env kube namespace name a s =
     (let init_ok = (case fst (with_client a (initialize env) s) of Inr _ \<Rightarrow> True | Inl _ \<Rightarrow> False);
          (r, w) = warm_leaf env True a s;
          status = \<lparr>st_health = Some (if init_ok \<and> is_healthy (entry r a) then ''Healthy'' else ''Unhealthy''),
                    st_tool_count = Some (sint (of_nat (length (cached_tools (entry r a))) :: 32 word)),
                    st_last_synced = Some (rfc3339_now kube w)\<rparr>
      in (r, snd (kube_patch_status kube namespace name (json_obj [(''status'', status_to_json status)]) w)))"

section \<open>Starting the controller\<close>

text \<open>What the controller does with the result of one reconciliation.\<close>

definition controller_action :: "reconcile_error + action \<Rightarrow> action" where
  "controller_action res = (case res of Inl e \<Rightarrow> error_policy e | Inr act \<Rightarrow> act)"

text \<open>\<open>run\<close>: whether the controller is started, and what it watches.\<close>

definition crd_run :: "'w kube \<Rightarrow> crd_discovery_config \<Rightarrow> 'w \<Rightarrow> watch_scope option \<times> 'w" where
  "crd_run kube config w =
     (case kube_connect kube w of
        (Inl e, w1) \<Rightarrow> (None, w1)
      | (Inr _, w1) \<Rightarrow>
          (let scope = (if str_trim (crd_namespace config) = [] then AllNamespaces
                        else OneNamespace (crd_namespace config))
           in case kube_list kube scope w1 of
                (Inl e, w2) \<Rightarrow> (None, w2)
              | (Inr _, w2) \<Rightarrow> (Some scope, w2)))"

text \<open>\<open>start_crd_watcher\<close> in both builds; \<open>feature\<close> is the build option.\<close>

definition start_crd_watcher ::
  "bool \<Rightarrow> 'w kube \<Rightarrow> crd_discovery_config \<Rightarrow> 'w \<Rightarrow> watch_scope option \<times> 'w" where
  "start_crd_watcher feature kube config w =
     (if feature \<and> crd_enabled config then crd_run kube config w else (None, w))"

section \<open>Facts\<close>

definition owned_alias :: "mcp_server \<Rightarrow> string" where
  "owned_alias obj = crd_alias (case mo_namespace obj of Some n \<Rightarrow> n | None \<Rightarrow> []) (mo_name obj)"

lemma crd_reconcile_registry:
  assumes "crd_reconcile env kube pool obj (r, w) = (res, spawned, (r', w'))"
  obtains (keep) "FINALIZER \<notin> set (mo_finalizers obj)" "r' = r"
    | (del) "FINALIZER \<in> set (mo_finalizers obj)" "mo_deleting obj" "r' = del_leaf (owned_alias obj) r"
    | (bad) e where "FINALIZER \<in> set (mo_finalizers obj)" "\<not> mo_deleting obj"
        "parse_transport (ms_transport (mo_spec obj)) = Inl e" "r' = r"
    | (put) t where "FINALIZER \<in> set (mo_finalizers obj)" "\<not> mo_deleting obj"
        "parse_transport (ms_transport (mo_spec obj)) = Inr t"
        "r' = put_leaf (owned_alias obj)
           (leaf_new_with_pool env w (crd_config (owned_alias obj) t (mo_spec obj)) pool) r"
  using assms
  by (auto simp: crd_reconcile_def owned_alias_def del_leaf_def put_leaf_def Let_def
      split: if_splits prod.splits sum.splits)

lemma crd_config_alias [simp]: "sc_alias (crd_config k t spec) = k"
  by (simp add: crd_config_def)

lemma crd_reconcile_ok:
  assumes "registry_ok (fst s)"
  shows "registry_ok (fst (snd (snd (crd_reconcile env kube pool obj s))))"
proof -
  obtain res sp r' w' where run: "crd_reconcile env kube pool obj (fst s, snd s) = (res, sp, (r', w'))"
    by (metis surj_pair)
  then have "registry_ok r'"
    using assms by (cases rule: crd_reconcile_registry) (simp_all add: rt.ok_del rt.ok_put)
  with run show ?thesis by simp
qed

text \<open>C21: Reconciling an object touches only the alias derived from its namespace and name.  A leaf
  is registered there only when the object is live, already carries the finalizer and names a known
  transport, so that a deletion is always seen later; a deleted object with the finalizer loses its
  leaf even when the patch that releases the object fails; in all other cases the registry stays as
  it is.\<close>

theorem crd_reconcile_spec:
  assumes "registry_ok r" and "crd_reconcile env kube pool obj (r, w) = (res, spawned, (r', w'))"
  shows "leaf_at r' =
     (leaf_at r)(owned_alias obj :=
        (if FINALIZER \<notin> set (mo_finalizers obj) then leaf_at r (owned_alias obj)
         else if mo_deleting obj then None
         else case parse_transport (ms_transport (mo_spec obj)) of
                Inl e \<Rightarrow> leaf_at r (owned_alias obj)
              | Inr t \<Rightarrow> Some (leaf_new_with_pool env w (crd_config (owned_alias obj) t (mo_spec obj)) pool)))
     \<and> registry_ok r'"
proof -
  have ok: "registry_ok r'" using crd_reconcile_ok [of "(r, w)" env kube pool obj] assms by simp
  from assms(2) have "leaf_at r' = (leaf_at r)(owned_alias obj :=
        (if FINALIZER \<notin> set (mo_finalizers obj) then leaf_at r (owned_alias obj)
         else if mo_deleting obj then None
         else case parse_transport (ms_transport (mo_spec obj)) of
                Inl e \<Rightarrow> leaf_at r (owned_alias obj)
              | Inr t \<Rightarrow> Some (leaf_new_with_pool env w (crd_config (owned_alias obj) t (mo_spec obj)) pool)))"
    by (cases rule: crd_reconcile_registry) (use assms(1) in \<open>auto simp: fun_eq_iff rt.lookup_del rt.lookup_put\<close>)
  with ok show ?thesis by blast
qed

definition sample_object :: "bool \<Rightarrow> mcp_server" where
  "sample_object deleting =
     \<lparr>mo_namespace = Some ''ns'', mo_name = ''db'', mo_deleting = deleting, mo_finalizers = [FINALIZER],
      mo_spec = \<lparr>ms_alias = ''x'', ms_url = ''http://db/mcp'', ms_transport = ''http-post'', ms_tags = [],
                 ms_auth_token = None, ms_auth_token_file = None, ms_timeout_seconds = None\<rparr>\<rparr>"

lemma sample_object_sel [simp]:
  "mo_deleting (sample_object d) = d" "mo_finalizers (sample_object d) = [FINALIZER]"
  "parse_transport (ms_transport (mo_spec (sample_object d))) = Inr HttpPost"
  "owned_alias (sample_object d) = ''crd-ns-db''"
  by (simp_all add: sample_object_def parse_transport_def owned_alias_def crd_alias_def CRD_ALIAS_PREFIX_def)

definition sample_kube :: "nat kube" where
  "sample_kube =
     \<lparr>kube_connect = (\<lambda>w. (Inr (), w)), kube_list = (\<lambda>scope w. (Inr (), w)),
      kube_patch = (\<lambda>ns n p w. (Inl ''down'', w)), kube_patch_status = (\<lambda>ns n p w. (Inl ''down'', w)),
      kube_since_epoch = (\<lambda>w. None)\<rparr>"

theorem crd_reconcile_spec_witness:
  "let r1 = fst (snd (snd (crd_reconcile ok_env sample_kube default_connection_pool_config
         (sample_object False) (sample_registry, 0))));
       r2 = fst (snd (snd (crd_reconcile ok_env sample_kube default_connection_pool_config
         (sample_object True) (r1, 0))))
   in leaf_at r1 ''crd-ns-db'' \<noteq> None \<and> leaf_at r1 ''k8s'' = Some sample_leaf
      \<and> leaf_at r2 ''crd-ns-db'' = None"
proof -
  obtain a1 b1 r1 w1 where
    run1: "crd_reconcile ok_env sample_kube default_connection_pool_config (sample_object False) (sample_registry, 0)
      = (a1, b1, (r1, w1))" by (metis surj_pair)
  obtain a2 b2 r2 w2 where
    run2: "crd_reconcile ok_env sample_kube default_connection_pool_config (sample_object True) (r1, 0)
      = (a2, b2, (r2, w2))" by (metis surj_pair)
  note s1 = crd_reconcile_spec [OF sample_registry_ok run1]
  note s2 = crd_reconcile_spec [OF conjunct2 [OF s1] run2]
  show ?thesis
    unfolding Let_def run1 snd_conv fst_conv run2
    using s1 s2 by simp
qed

text \<open>Aliases of custom resources are not unique: two different objects, in namespaces of which one
  extends the other by a hyphen, are given the same alias, so reconciling one replaces the leaf of the
  other.\<close>

lemma crd_alias_collision:
  "crd_alias (ns @ ''-'' @ x) name = crd_alias ns (x @ ''-'' @ name)"
  by (simp add: crd_alias_def)

section \<open>Passes of the controller\<close>

text \<open>
  What the program relies on of the API server: a patch of the finalizers that succeeds sets them on
  the stored object and changes nothing else of it; one that fails leaves the object alone.  \<open>get\<close>
  reads the object.
\<close>

definition patch_applies :: "'w kube \<Rightarrow> ('w \<Rightarrow> mcp_server) \<Rightarrow> string \<Rightarrow> string \<Rightarrow> bool" where
  "patch_applies kube get ns name \<longleftrightarrow>
     (\<forall>w fs. case kube_patch kube ns name (finalizers_patch fs) w of
              (Inr _, w') \<Rightarrow> get w' = (get w)\<lparr>mo_finalizers := fs\<rparr>
            | (Inl e, w') \<Rightarrow> get w' = get w)"

text \<open>One pass reconciles the object as it is stored now.\<close>

definition crd_pass ::
  "'w env \<Rightarrow> 'w kube \<Rightarrow> connection_pool_config \<Rightarrow> ('w \<Rightarrow> mcp_server) \<Rightarrow> registry \<times> 'w \<Rightarrow> registry \<times> 'w" where
  "crd_pass env kube pool get s = snd (snd (crd_reconcile env kube pool (get (snd s)) s))"

text \<open>A pass over a live object with the finalizer puts a fresh entry under its alias and leaves the
  outside world alone.\<close>

lemma crd_pass_live:
  assumes "registry_ok r" "\<not> mo_deleting (get w)" "FINALIZER \<in> set (mo_finalizers (get w))"
    and "parse_transport (ms_transport (mo_spec (get w))) = Inr t"
  shows "\<exists>r'. crd_pass env kube pool get (r, w) = (r', w) \<and> registry_ok r'
     \<and> leaf_at r' = (leaf_at r)(owned_alias (get w) \<mapsto>
         leaf_new_with_pool env w (crd_config (owned_alias (get w)) t (mo_spec (get w))) pool)"
proof -
  let ?e = "leaf_new_with_pool env w (crd_config (owned_alias (get w)) t (mo_spec (get w))) pool"
  let ?r = "put_leaf (owned_alias (get w)) ?e r"
  have "crd_pass env kube pool get (r, w) = (?r, w)"
    using assms(2-4) by (simp add: crd_pass_def crd_reconcile_def owned_alias_def put_leaf_def Let_def)
  moreover have "leaf_at ?r = (leaf_at r)(owned_alias (get w) \<mapsto> ?e)"
    using assms(1) by (simp add: fun_eq_iff rt.lookup_put)
  ultimately show ?thesis using assms(1) by (simp add: rt.ok_put)
qed

lemma crd_passes_live:
  assumes "registry_ok r" "\<not> mo_deleting (get w)" "FINALIZER \<in> set (mo_finalizers (get w))"
    and "parse_transport (ms_transport (mo_spec (get w))) = Inr t"
  shows "\<exists>r'. (crd_pass env kube pool get ^^ Suc n) (r, w) = (r', w) \<and> registry_ok r'
     \<and> leaf_at r' = (leaf_at r)(owned_alias (get w) \<mapsto>
         leaf_new_with_pool env w (crd_config (owned_alias (get w)) t (mo_spec (get w))) pool)"
proof (induction n)
  case 0
  show ?case unfolding funpow.simps comp_def id_apply by (rule crd_pass_live [where get = get, OF assms])
next
  case (Suc n)
  then obtain r1 where r1: "(crd_pass env kube pool get ^^ Suc n) (r, w) = (r1, w)" "registry_ok r1"
    "leaf_at r1 = (leaf_at r)(owned_alias (get w) \<mapsto>
       leaf_new_with_pool env w (crd_config (owned_alias (get w)) t (mo_spec (get w))) pool)"
    by blast
  from crd_pass_live [where get = get, OF r1(2) assms(2-4)] r1(1,3) show ?case by fastforce
qed

text \<open>Two passes suffice, and the further ones have the same outcome up to the entry they make.\<close>

lemma crd_passes_settle:
  assumes "registry_ok r" and "patch_applies kube get ns name"
    and "mo_namespace (get w) = Some ns" and "mo_name (get w) = name" and "\<not> mo_deleting (get w)"
    and "parse_transport (ms_transport (mo_spec (get w))) = Inr t"
    and "fst (kube_patch kube ns name (finalizers_patch (mo_finalizers (get w) @ [FINALIZER])) w) = Inr ()"
  shows "\<exists>r' w'. (crd_pass env kube pool get ^^ (n + 2)) (r, w) = (r', w')
     \<and> leaf_at r' = (leaf_at r)(crd_alias ns name \<mapsto>
         leaf_new_with_pool env w' (crd_config (crd_alias ns name) t (mo_spec (get w))) pool)
     \<and> FINALIZER \<in> set (mo_finalizers (get w'))"
proof (cases "FINALIZER \<in> set (mo_finalizers (get w))")
  case True
  have "owned_alias (get w) = crd_alias ns name" using assms(3,4) by (simp add: owned_alias_def)
  with crd_passes_live [where get = get, OF assms(1,5) True assms(6), where n = "Suc n" and env = env and kube = kube and pool = pool] True
  show ?thesis by auto
next
  case False
  let ?fs = "mo_finalizers (get w) @ [FINALIZER]"
  obtain w1 where w1: "kube_patch kube ns name (finalizers_patch ?fs) w = (Inr (), w1)"
    using assms(7) by (metis prod.collapse)
  then have g: "get w1 = (get w)\<lparr>mo_finalizers := ?fs\<rparr>"
    using assms(2) [unfolded patch_applies_def, rule_format, of w ?fs] by simp
  have first: "crd_pass env kube pool get (r, w) = (r, w1)"
    using assms(3-5) False w1 by (simp add: crd_pass_def crd_reconcile_def Let_def)
  have al: "owned_alias (get w1) = crd_alias ns name" using assms(3,4) by (simp add: g owned_alias_def)
  have "(crd_pass env kube pool get ^^ (n + 2)) (r, w) = (crd_pass env kube pool get ^^ Suc n) (r, w1)"
    using first by (simp add: funpow_swap1)
  with crd_passes_live [OF assms(1), where get = get and w = w1 and t = t and env = env and kube = kube and pool = pool and n = n]
    assms(5,6) al show ?thesis by (auto simp: g)
qed

text \<open>C22: Discovery of a custom resource settles, as far as aliases and settings go: once the API server
  accepts the patch that adds the finalizer, two passes of the controller suffice to register a live
  object whose transport is known, and after every number of further passes the table has the same
  aliases with the same settings, every other alias still leads to the very entry it led to before, and
  the object carries the finalizer.  The entry of the object itself does not last: every pass puts a
  fresh one in its place, of unknown health, with no failures counted and with empty caches, to be
  filled by the task the pass spawns.\<close>

theorem crd_settles:
  assumes "registry_ok r" and "patch_applies kube get ns name"
    and "mo_namespace (get w) = Some ns" and "mo_name (get w) = name" and "\<not> mo_deleting (get w)"
    and "parse_transport (ms_transport (mo_spec (get w))) = Inr t"
    and "fst (kube_patch kube ns name (finalizers_patch (mo_finalizers (get w) @ [FINALIZER])) w) = Inr ()"
  shows "\<exists>r' w' e. (crd_pass env kube pool get ^^ (n + 2)) (r, w) = (r', w')
     \<and> members r' = (members r)(crd_alias ns name \<mapsto> crd_config (crd_alias ns name) t (mo_spec (get w)))
     \<and> leaf_at r' = (leaf_at r)(crd_alias ns name \<mapsto> e)
     \<and> e = leaf_new_with_pool env w' (crd_config (crd_alias ns name) t (mo_spec (get w))) pool
     \<and> health e = Unknown \<and> consecutive_failures e = 0
     \<and> cached_tools e = [] \<and> cached_resources e = [] \<and> cached_prompts e = []
     \<and> FINALIZER \<in> set (mo_finalizers (get w'))"
proof -
  let ?new = "\<lambda>w'. leaf_new_with_pool env w' (crd_config (crd_alias ns name) t (mo_spec (get w))) pool"
  from crd_passes_settle [OF assms, where env = env and pool = pool and n = n]
  obtain r' w' where r': "(crd_pass env kube pool get ^^ (n + 2)) (r, w) = (r', w')"
    "leaf_at r' = (leaf_at r)(crd_alias ns name \<mapsto> ?new w')" "FINALIZER \<in> set (mo_finalizers (get w'))" by blast
  then have "members r' = (members r)(crd_alias ns name \<mapsto> crd_config (crd_alias ns name) t (mo_spec (get w)))"
    by (simp add: members_def fun_eq_iff)
  with r' show ?thesis
    by (intro exI [of _ r'] exI [of _ w'] exI [of _ "?new w'"]) (simp add: leaf_new_with_pool_def)
qed

text \<open>An API server that holds one object: the world is its list of finalizers.\<close>

definition store_kube :: "nat kube" where
  "store_kube =
     \<lparr>kube_connect = (\<lambda>w. (Inr (), w)), kube_list = (\<lambda>scope w. (Inr (), w)),
      kube_patch = (\<lambda>ns n p w. if p = finalizers_patch [FINALIZER] then (Inr (), 1) else (Inl ''refused'', w)),
      kube_patch_status = (\<lambda>ns n p w. (Inr (), w)), kube_since_epoch = (\<lambda>w. None)\<rparr>"

definition store_get :: "nat \<Rightarrow> mcp_server" where
  "store_get w = (sample_object False)\<lparr>mo_finalizers := (if w = 0 then [] else [FINALIZER])\<rparr>"

lemma finalizers_patch_eq: "finalizers_patch fs = finalizers_patch fs' \<Longrightarrow> fs = fs'"
  by (auto simp: finalizers_patch_def json_obj_def inj_def dest: map_injective)

lemma store_kube_applies: "patch_applies store_kube store_get ns name"
  by (auto simp: patch_applies_def store_kube_def store_get_def dest: finalizers_patch_eq)

theorem crd_settles_witness:
  "\<exists>r' w'. (crd_pass ok_env store_kube default_connection_pool_config store_get ^^ 2) (sample_registry, 0) = (r', w')
     \<and> map_option health (leaf_at r' ''crd-ns-db'') = Some Unknown \<and> leaf_at r' ''k8s'' = Some sample_leaf"
proof -
  have o: "mo_namespace (store_get 0) = Some ''ns''" "mo_name (store_get 0) = ''db''"
    "\<not> mo_deleting (store_get 0)" "parse_transport (ms_transport (mo_spec (store_get 0))) = Inr HttpPost"
    by (simp_all add: store_get_def sample_object_def parse_transport_def)
  have p: "fst (kube_patch store_kube ''ns'' ''db'' (finalizers_patch (mo_finalizers (store_get 0) @ [FINALIZER])) 0)
      = Inr ()" by (simp add: store_kube_def store_get_def)
  have "crd_alias ''ns'' ''db'' = ''crd-ns-db''" by (simp add: crd_alias_def CRD_ALIAS_PREFIX_def)
  with crd_settles [OF sample_registry_ok store_kube_applies o p, where env = ok_env and pool = default_connection_pool_config and n = 0]
  obtain r' w' e where "(crd_pass ok_env store_kube default_connection_pool_config store_get ^^ (0 + 2)) (sample_registry, 0) = (r', w')"
    "leaf_at r' = (leaf_at sample_registry)(''crd-ns-db'' \<mapsto> e)" "health e = Unknown"
    by auto
  then show ?thesis unfolding add_0 by (intro exI [of _ r'] exI [of _ w']) simp
qed

end
