(* ===== verification/Fed_Health.thy ===== *)
theory Fed_Health
  imports Fed_Registry
begin

text \<open>
  The health monitor (\<open>src/src/health.rs\<close>): one task for each leaf, its circuit breaker and its
  back-off.  \<open>pow_i\<close> is \<open>f64::powi\<close>, whose precision the standard library leaves open.
\<close>

definition MAX_BACKOFF :: duration where
  "MAX_BACKOFF = duration_from_secs 300"

text \<open>\<open>None\<close> is the panic of \<open>from_secs_f64\<close>; \<open>as i32\<close> reads the difference as a signed number.\<close>

definition next_delay ::
  "(f64 \<Rightarrow> int \<Rightarrow> f64) \<Rightarrow> duration \<Rightarrow> f64 \<Rightarrow> u32 \<Rightarrow> u32 \<Rightarrow> duration option" where
  "next_delay pow_i base multiplier threshold failures =
     (if failures < threshold \<or> multiplier \<le> 1 then Some (min base MAX_BACKOFF)
      else
        let exponent = sint (failures - threshold);
            factor = pow_i multiplier exponent;
            secs = f64_min (as_secs_f64 base * factor) (as_secs_f64 MAX_BACKOFF)
        in duration_from_secs_f64 secs)"

text \<open>The settings \<open>monitor_leaf\<close> reads once.\<close>

definition monitor_base :: "leaf_entry \<Rightarrow> duration" where
  "monitor_base e = duration_from_secs (hc_interval_seconds (sc_health_check (le_config e)))"

definition monitor_threshold :: "leaf_entry \<Rightarrow> u32" where
  "monitor_threshold e = max (failure_threshold (sc_health_check (le_config e))) 1"

definition monitor_multiplier :: "leaf_entry \<Rightarrow> f64" where
  "monitor_multiplier e =
     (let m = backoff_multiplier (sc_health_check (le_config e)) in if 1 \<le> m then m else 1)"

text \<open>One turn of the loop, up to the sleep: whether the check succeeded, and the new state.\<close>

definition monitor_round :: "'w env \<Rightarrow> nat \<Rightarrow> registry \<times> 'w \<Rightarrow> bool \<times> registry \<times> 'w" where
  "monitor_round env a s =
     (let (r, w) = s; (res, w1) = health_check env (le_client (entry r a)) w
      in case res of
           Inr _ \<Rightarrow>
             (let was_unhealthy = (\<not> is_healthy (entry r a));
                  s1 = write_leaf a (mark_healthy (clock env w1)) (r, w1)
              in (True, if was_unhealthy then snd (cache_tools env a s1) else s1))
         | Inl e \<Rightarrow>
             (let (failures, e1) = record_failure (clock env w1) (entry r a);
                  e2 = (if monitor_threshold (entry r a) \<le> failures then e1\<lparr>health := Unhealthy\<rparr> else e1)
              in (False, write_leaf a (\<lambda>_. e2) (r, w1))))"

definition monitor_sleep :: "(f64 \<Rightarrow> int \<Rightarrow> f64) \<Rightarrow> leaf_entry \<Rightarrow> duration option" where
  "monitor_sleep pow_i e =
     next_delay pow_i (monitor_base e) (monitor_multiplier e) (monitor_threshold e) (consecutive_failures e)"

text \<open>The tasks \<open>start_health_monitor\<close> spawns: one for each leaf of the table that has checks enabled.\<close>

definition start_health_monitor :: "registry \<Rightarrow> nat list" where
  "start_health_monitor r =
     filter (\<lambda>a. hc_enabled (sc_health_check (le_config (entry r a)))) (all_leaves r)"

text \<open>The first turns of the loop, and the outcomes of their checks.\<close>

fun monitor_run :: "'w env \<Rightarrow> nat \<Rightarrow> nat \<Rightarrow> registry \<times> 'w \<Rightarrow> bool list \<times> registry \<times> 'w" where
  "monitor_run env a 0 s = ([], s)"
| "monitor_run env a (Suc n) s =
     (let (outs, s1) = monitor_run env a n s; (ok, s2) = monitor_round env a s1 in (outs @ [ok], s2))"

section \<open>The circuit breaker\<close>

text \<open>The number of failures since the last success.\<close>

definition trailing_failures :: "bool list \<Rightarrow> nat" where
  "trailing_failures outs = length (takeWhile Not (rev outs))"

lemma trailing_failures_simps [simp]:
  "trailing_failures [] = 0" "trailing_failures (outs @ [True]) = 0"
  "trailing_failures (outs @ [False]) = Suc (trailing_failures outs)"
  by (simp_all add: trailing_failures_def)

lemma trailing_failures_le: "trailing_failures outs \<le> length outs"
  using length_takeWhile_le [of Not "rev outs"] by (simp add: trailing_failures_def)

lemma threshold_pos: "0 < unat (monitor_threshold e)"
proof -
  have "1 \<le> monitor_threshold e" by (simp add: monitor_threshold_def)
  then show ?thesis by (simp add: word_le_nat_alt)
qed

lemma monitor_round_touches: "touches a (fst s) (fst (snd (monitor_round env a s)))"
proof -
  have "touches a r (update_leaf a f r)" if "le_config (f (entry r a)) = le_config (entry r a)"
    "le_client (f (entry r a)) = le_client (entry r a)" for r f
    using that by (simp add: touches_def)
  moreover have "touches a r (fst (snd (cache_tools env a (write_leaf a (mark_healthy t) (r, w)))))"
    for r t w
    by (rule touches_trans [OF _ touches_cache_tools]) (simp add: touches_update)
  ultimately show ?thesis
    by (cases s) (auto simp: monitor_round_def Let_def split_beta record_failure_def touches_update
        split: sum.split)
qed

lemma monitor_round_vitals:
  assumes "a < length (leaf_heap (fst s))" and "monitor_round env a s = (ok, s')"
  shows "ok \<Longrightarrow> health (entry (fst s') a) = Healthy \<and> consecutive_failures (entry (fst s') a) = 0"
    and "\<not> ok \<Longrightarrow> consecutive_failures (entry (fst s') a) = consecutive_failures (entry (fst s) a) + 1
      \<and> health (entry (fst s') a) =
          (if monitor_threshold (entry (fst s) a) \<le> consecutive_failures (entry (fst s) a) + 1
           then Unhealthy else health (entry (fst s) a))"
proof -
  have v: "vitals e = (Healthy, t, 0) \<Longrightarrow> health e = Healthy \<and> consecutive_failures e = 0" for e t
    by (simp add: vitals_def)
  have c: "vitals (entry (fst (snd (cache_tools env a (write_leaf a (mark_healthy t) (r, w))))) a) =
      (Healthy, Some t, 0)" if "a < length (leaf_heap r)" for r t w using that by simp
  show "ok \<Longrightarrow> health (entry (fst s') a) = Healthy \<and> consecutive_failures (entry (fst s') a) = 0"
    using assms v [OF c]
    by (cases s) (auto simp: monitor_round_def Let_def split_beta mark_healthy_def split: sum.splits if_splits)
  show "\<not> ok \<Longrightarrow> consecutive_failures (entry (fst s') a) = consecutive_failures (entry (fst s) a) + 1
      \<and> health (entry (fst s') a) =
          (if monitor_threshold (entry (fst s) a) \<le> consecutive_failures (entry (fst s) a) + 1
           then Unhealthy else health (entry (fst s) a))"
    using assms
    by (cases s) (auto simp: monitor_round_def Let_def split_beta record_failure_def split: sum.splits)
qed

lemma monitor_run_touches: "touches a (fst s) (fst (snd (monitor_run env a n s)))"
proof (induction n)
  case (Suc n)
  then show ?case
    using touches_trans [OF Suc.IH monitor_round_touches [of a "snd (monitor_run env a n s)" env]]
    by (simp add: Let_def split_beta)
qed simp

lemma monitor_run_length: "length (fst (monitor_run env a n s)) = n"
  by (induction n) (simp_all add: Let_def split_beta)

text \<open>C10: The circuit breaker trips exactly on the configured number of failures in a row: a leaf
  that starts in rotation with a clean counter is out of rotation after any number of checks (fewer than
  2^32, the range of the counter) exactly when at least the
  threshold (never less than one) of the last checks all failed; a single success puts it back with
  a clean counter.\<close>

theorem circuit_breaker:
  assumes "a < length (leaf_heap r)" and "is_healthy (entry r a)" and "consecutive_failures (entry r a) = 0"
    and "n < 2 ^ 32" and "monitor_run env a n (r, w) = (outs, (r', w'))"
  shows "consecutive_failures (entry r' a) = of_nat (trailing_failures outs)
    \<and> (is_healthy (entry r' a) \<longleftrightarrow> trailing_failures outs < unat (monitor_threshold (entry r a)))"
  using assms(4,5)
proof (induction n arbitrary: outs r' w')
  case 0
  with assms(2,3) threshold_pos show ?case by simp
next
  case (Suc n)
  obtain outs1 r1 w1 where run: "monitor_run env a n (r, w) = (outs1, (r1, w1))"
    by (cases "monitor_run env a n (r, w)") auto
  obtain ok where rd: "monitor_round env a (r1, w1) = (ok, (r', w'))" and outs: "outs = outs1 @ [ok]"
    using Suc.prems(2) run by (auto simp: Let_def split: prod.splits)
  have t: "touches a r r1" using monitor_run_touches [of a "(r, w)" env n] run by simp
  then have len: "a < length (leaf_heap (fst (r1, w1)))" using assms(1) by (simp add: touches_def)
  have th: "monitor_threshold (entry r1 a) = monitor_threshold (entry r a)"
    using t by (simp add: monitor_threshold_def touches_def)
  note IH = Suc.IH [OF _ run]
  show ?case
  proof (cases ok)
    case True
    with monitor_round_vitals(1) [OF len rd] outs threshold_pos show ?thesis by (simp add: is_healthy_def)
  next
    case False
    let ?k = "trailing_failures outs1"
    have "?k \<le> n" using trailing_failures_le [of outs1] monitor_run_length [of env a n "(r, w)"] run by simp
    then have "Suc ?k < 2 ^ 32" using Suc.prems(1) by simp
    then have "unat (of_nat (Suc ?k) :: u32) = Suc ?k" by (simp add: unat_of_nat del: of_nat_Suc)
    moreover have cf: "consecutive_failures (entry r1 a) + 1 = of_nat (Suc ?k)"
      using IH Suc.prems(1) by simp
    ultimately have le: "monitor_threshold (entry r a) \<le> of_nat (Suc ?k) \<longleftrightarrow>
        unat (monitor_threshold (entry r a)) \<le> Suc ?k"
      by (simp only: word_le_nat_alt)
    from False monitor_round_vitals(2) [OF len rd] have
      "consecutive_failures (entry r' a) = of_nat (Suc ?k)"
      "health (entry r' a) =
         (if unat (monitor_threshold (entry r a)) \<le> Suc ?k then Unhealthy else health (entry r1 a))"
      by (simp_all only: fst_conv cf th le simp_thms)
    with False outs IH Suc.prems(1) show ?thesis
      by (auto simp: is_healthy_def simp del: of_nat_Suc split: if_splits)
  qed
qed

text \<open>A world in which every exchange fails, for the witness.\<close>

definition down_env :: "nat env" where
  "down_env = ok_env\<lparr>http_send := (\<lambda>cfg rq w. (Inl ''refused'', Suc w))\<rparr>"

lemma down_health_check: "health_check down_env c w = (Inl (LeafUnreachable (lc_alias c) ''refused''), Suc w)"
  by (simp add: health_check_def down_env_def)

lemma down_round: "fst (monitor_round down_env a s) = False"
  by (cases s) (simp add: monitor_round_def down_health_check Let_def split_beta)

lemma down_run: "fst (monitor_run down_env a n s) = replicate n False"
  by (induction n) (simp_all add: Let_def split_beta down_round replicate_append_same)

theorem circuit_breaker_witness:
  "let r = from_configs_with_pool ok_env 0 [sample_server ''a''] default_connection_pool_config
   in is_healthy (entry (fst (snd (monitor_run down_env 0 2 (r, 0)))) 0)
      \<and> \<not> is_healthy (entry (fst (snd (monitor_run down_env 0 3 (r, 0)))) 0)"
proof -
  let ?r = "from_configs_with_pool ok_env 0 [sample_server ''a''] default_connection_pool_config"
  have r: "0 < length (leaf_heap ?r)" "entry ?r 0 = leaf_new_with_pool ok_env 0 (sample_server ''a'') default_connection_pool_config"
    by (simp_all add: from_configs_with_pool_def add_leaf_def with_pool_def entry_def)
  have e: "is_healthy (entry ?r 0)" "consecutive_failures (entry ?r 0) = 0"
    "unat (monitor_threshold (entry ?r 0)) = 3"
    unfolding r(2)
    by (simp_all add: is_healthy_def leaf_new_with_pool_def monitor_threshold_def sample_server_def
        default_health_check_config_def max_def word_le_nat_alt)
  have tf: "trailing_failures (replicate n False) = n" for n
    by (simp add: trailing_failures_def)
  have k: "is_healthy (entry (fst (snd (monitor_run down_env 0 n (?r, 0)))) 0) \<longleftrightarrow> n < 3"
    if "n < 2 ^ 32" for n
  proof -
    obtain outs r' w' where run: "monitor_run down_env 0 n (?r, 0) = (outs, (r', w'))"
      by (cases "monitor_run down_env 0 n (?r, 0)") auto
    have "outs = replicate n False" using down_run [of 0 n "(?r, 0)"] run by simp
    with circuit_breaker [OF r(1) e(1,2) that run] show ?thesis by (simp add: run tf e(3))
  qed
  show ?thesis unfolding Let_def by (simp add: k)
qed

section \<open>The back-off\<close>

lemma max_backoff: "MAX_BACKOFF = 300000000000" "as_secs_f64 MAX_BACKOFF = Fin 300"
proof -
  show d: "MAX_BACKOFF = 300000000000" by (simp add: MAX_BACKOFF_def duration_from_secs_def)
  have "f64_of_nat 300 = Fin 300" using f64_of_nat_small [of 300] by simp
  moreover have "f64_of_rat 0 = Fin 0" using f64_of_rat_rep [of 0] by simp
  moreover have "f64_of_rat 300 = Fin 300" using \<open>f64_of_nat 300 = Fin 300\<close> by (simp add: f64_of_nat_def)
  ultimately show "as_secs_f64 MAX_BACKOFF = Fin 300" by (simp add: as_secs_f64_def d f64_ops)
qed

lemma f64_min_300:
  assumes "f64_nn x"
  shows "\<exists>q. f64_min x (Fin 300) = Fin q \<and> 0 \<le> q \<and> q \<le> 300"
  using assms by (cases x) (auto simp: f64_nn_def f64_nonneg_def f64_ops)

lemma duration_le_300:
  assumes "0 \<le> q" "q \<le> 300"
  shows "\<exists>d. duration_from_secs_f64 (Fin q) = Some d \<and> d \<le> MAX_BACKOFF"
proof -
  have "round_even (q * 1000000000) \<le> 300000000000"
    using assms by (intro round_even_le) simp
  with assms show ?thesis by (simp add: duration_from_secs_f64_def max_backoff)
qed

text \<open>C33: The back-off is total and bounded: whatever interval, multiplier (infinite and
  not-a-number ones too), threshold and failure count are given, the next delay is computed without
  a panic and never exceeds five minutes; below the threshold, and with a multiplier of at most one, it
  is the configured interval, or five minutes if the interval is longer.  All that is asked of the
  power function is that it does not return a negative number for a base above one.\<close>

theorem next_delay_bounded:
  assumes "\<And>n. \<not> multiplier \<le> 1 \<Longrightarrow> f64_nn (pow_i multiplier n)"
  shows "\<exists>d. next_delay pow_i base multiplier threshold failures = Some d \<and> d \<le> MAX_BACKOFF
           \<and> (failures < threshold \<or> multiplier \<le> 1 \<longrightarrow> d = min base MAX_BACKOFF)"
proof (cases "failures < threshold \<or> multiplier \<le> 1")
  case True
  then show ?thesis by (auto simp: next_delay_def)
next
  case False
  then have "f64_nn (as_secs_f64 base * pow_i multiplier (sint (failures - threshold)))"
    using assms by (intro f64_nn_mul_nn) simp_all
  from f64_min_300 [OF this] obtain q where
    "f64_min (as_secs_f64 base * pow_i multiplier (sint (failures - threshold))) (Fin 300) = Fin q"
    "0 \<le> q" "q \<le> 300" by blast
  with duration_le_300 [of q] False show ?thesis by (auto simp: next_delay_def Let_def max_backoff(2))
qed

theorem next_delay_bounded_witness:
  "(\<exists>d. next_delay (\<lambda>m n. m) 30000000000 (Fin 2) 3 4 = Some d \<and> d \<le> MAX_BACKOFF)
   \<and> next_delay (\<lambda>m n. m) 600000000000 (Fin 2) 3 0 = Some 300000000000"
  using next_delay_bounded [of "Fin 2" "\<lambda>m n. m" 30000000000 3 4]
    next_delay_bounded [of "Fin 2" "\<lambda>m n. m" 600000000000 3 0]
  by (auto simp: f64_nn_def f64_nonneg_def MAX_BACKOFF_def duration_from_secs_def)

end
