(* ===== verification/Fed_System.thy ===== *)
theory Fed_System
  imports Fed_App Fed_Dns Fed_Crd Fed_Health
begin

text \<open>
  The running server as a whole: everything that can happen to it as one labelled step relation, its
  invariant, what each origin of a step may do to the table of leaves, which steps may change the
  health of a leaf, and which session operations a run amounts to.
\<close>

section \<open>The system\<close>

text \<open>An operation on the registry, run on the state of the whole server.\<close>

definition on_registry ::
  "(registry \<times> 'w \<Rightarrow> registry \<times> 'w) \<Rightarrow> 'tx federation \<times> 'w \<Rightarrow> 'tx federation \<times> 'w" where
  "on_registry f s = set_registry (f (fd_registry (fst s), snd s)) s"

text \<open>Where a step comes from.\<close>

datatype origin =
    Request http_call
  | Stdio json_rpc_request
  | Dns_Poll
  | Crd_Event mcp_server
  | Sighup
  | Warm_Up nat
  | Monitor nat
  | Background

text \<open>
  What can happen to a running server, one handler or one round of a task at a time: an HTTP request
  of any kind, a request on standard input, a DNS poll, an event of a custom resource, a reload, the
  warm-up of a new leaf (for a custom resource with its status written back), a round of a monitor,
  and in the background the end of a stream, a notification from a leaf, a refresh, a round of session
  pruning, and changes of the outside world alone.  A task may hold the address of a leaf that has
  left the table.
\<close>

inductive fed_step ::
  "('w, 'tx) app \<Rightarrow> 'w kube \<Rightarrow> 'w dig \<Rightarrow> origin \<Rightarrow> 'tx federation \<times> 'w \<Rightarrow> 'tx federation \<times> 'w \<Rightarrow> bool"
  for ap :: "('w, 'tx) app" and kube :: "'w kube" and dig :: "'w dig" where
  fed_http: "fed_step ap kube dig (Request c) s (snd (http_app ap c s))"
| fed_stdio: "fed_step ap kube dig (Stdio request) s (snd (dispatch (ap_srv ap) request None anonymous_ctx s))"
| fed_dns: "fed_step ap kube dig Dns_Poll s
    (on_registry (\<lambda>p. snd (poll_once (sv_env (ap_srv ap)) dig dcfg p)) s)"
| fed_crd: "fed_step ap kube dig (Crd_Event obj) s
    (on_registry (\<lambda>p. snd (snd (crd_reconcile (sv_env (ap_srv ap)) kube pool obj p))) s)"
| fed_sighup: "fed_step ap kube dig Sighup s (on_registry (on_sighup (sv_env (ap_srv ap)) getenv yaml path) s)"
| fed_drop: "fed_step ap kube dig Background s (drop_subscription sub_id s)"
| fed_publish: "publish try_send meanwhile n (fd_notifications st) w = (delivered, b, w')
    \<Longrightarrow> fed_step ap kube dig Background (st, w) (st\<lparr>fd_notifications := b\<rparr>, w')"
| fed_crd_status: "fed_step ap kube dig (Warm_Up a) s
    (on_registry (crd_status_task (sv_env (ap_srv ap)) kube ns nm a) s)"
| fed_warm: "fed_step ap kube dig (Warm_Up a) s (on_registry (warm_leaf (sv_env (ap_srv ap)) keep_info a) s)"
| fed_task: "fd_tasks st = ts @ a # ts' \<Longrightarrow>
    fed_step ap kube dig Background (st, w)
      (on_registry (\<lambda>p. snd (cache_tools (sv_env (ap_srv ap)) a p)) (st\<lparr>fd_tasks := ts @ ts'\<rparr>, w))"
| fed_monitor: "fed_step ap kube dig (Monitor a) s
    (on_registry (\<lambda>p. snd (monitor_round (sv_env (ap_srv ap)) a p)) s)"
| fed_prune: "prune_task_round alive now (fd_sessions st) = Some m
    \<Longrightarrow> fed_step ap kube dig Background (st, w) (st\<lparr>fd_sessions := m\<rparr>, w)"
| fed_world: "fed_step ap kube dig Background (st, w) (st, w')"

inductive_cases fed_stepE: "fed_step ap kube dig src s s'"

inductive fed_reachable ::
  "('w, 'tx) app \<Rightarrow> 'w kube \<Rightarrow> 'w dig \<Rightarrow> 'tx federation \<times> 'w \<Rightarrow> 'tx federation \<times> 'w \<Rightarrow> bool"
  for ap kube dig s0 where
  reach_start: "fed_reachable ap kube dig s0 s0"
| reach_step: "fed_reachable ap kube dig s0 s \<Longrightarrow> fed_step ap kube dig src s s' \<Longrightarrow> fed_reachable ap kube dig s0 s'"

section \<open>The invariant of the system\<close>

text \<open>The parts of the invariant that are not the registry's: the limiter, the sessions and the settings.\<close>

definition settings_ok :: "federation_config \<Rightarrow> 'tx federation \<Rightarrow> bool" where
  "settings_ok config st \<longleftrightarrow>
     fd_allowed_origins st = fs_allowed_origins (fc_federation config)
     \<and> limiter_ok (fd_rate_limiter st)
     \<and> rl_config (fd_rate_limiter st) = fs_rate_limit (fc_federation config)
     \<and> manager_ok (fd_sessions st)
     \<and> sm_ttl (fd_sessions st) = duration_from_secs (session_ttl_seconds (fc_federation config))"

definition fed_ok :: "federation_config \<Rightarrow> 'tx federation \<Rightarrow> bool" where
  "fed_ok config st \<longleftrightarrow> registry_ok (fd_registry st) \<and> settings_ok config st"

lemma settings_updates [simp]:
  "settings_ok config (st\<lparr>fd_registry := r\<rparr>) = settings_ok config st"
  "settings_ok config (st\<lparr>fd_tasks := ts\<rparr>) = settings_ok config st"
  "settings_ok config (st\<lparr>fd_notifications := b\<rparr>) = settings_ok config st"
  by (simp_all add: settings_ok_def)

lemma on_registry_sel [simp]:
  "fst (on_registry f s) = (fst s)\<lparr>fd_registry := fst (f (fd_registry (fst s), snd s))\<rparr>"
  "snd (on_registry f s) = snd (f (fd_registry (fst s), snd s))"
  by (simp_all add: on_registry_def set_registry_def)

text \<open>The handlers keep the settings part.\<close>

lemma session_ops_ok [simp]:
  assumes "manager_ok m"
  shows "manager_ok (touch_session now sid m)" "manager_ok (snd (terminate_session sid m))"
    "manager_ok (snd (set_log_level sid level m))" "manager_ok (snd (prune_expired clocks m))"
    "manager_ok (snd (create_session lib u secs now ci m))"
  using step_ok [OF assms, of lib "ETouch now sid"] step_ok [OF assms, of lib "ETerminate sid"]
    step_ok [OF assms, of lib "ESetLevel sid level"] step_ok [OF assms, of lib "EPrune clocks"]
    step_ok [OF assms, of lib "ECreate u secs now ci"]
  by simp_all

lemma session_ops_ttl [simp]:
  "sm_ttl (touch_session now sid m) = sm_ttl m" "sm_ttl (snd (terminate_session sid m)) = sm_ttl m"
  "sm_ttl (snd (set_log_level sid level m)) = sm_ttl m" "sm_ttl (snd (prune_expired clocks m)) = sm_ttl m"
  "sm_ttl (snd (create_session lib u secs now ci m)) = sm_ttl m"
  using step_settings(1) [of lib "ETouch now sid" m] step_settings(1) [of lib "ETerminate sid" m]
    step_settings(1) [of lib "ESetLevel sid level" m] step_settings(1) [of lib "EPrune clocks" m]
    step_settings(1) [of lib "ECreate u secs now ci" m]
  by simp_all

lemma session_update_ok:
  "settings_ok config st \<Longrightarrow> manager_ok m \<Longrightarrow> sm_ttl m = sm_ttl (fd_sessions st)
     \<Longrightarrow> settings_ok config (st\<lparr>fd_sessions := m\<rparr>)"
  by (simp add: settings_ok_def)

lemma settings_manager: "settings_ok config st \<Longrightarrow> manager_ok (fd_sessions st)"
  by (simp add: settings_ok_def)

lemma dispatch_settings:
  assumes "settings_ok config (fst s)"
  shows "settings_ok config (fst (snd (dispatch sv request sid ctx s)))"
  using assms
  by (simp add: dispatch_def Let_def handle_tools_list_def split_beta handle_tools_call_def respond_route_state
      handle_resources_list_def handle_resources_read_def handle_prompts_list_def handle_prompts_get_def
      handle_logging_set_level_def session_update_ok settings_manager split: option.split)

lemma open_session_settings:
  "settings_ok config (fst s) \<Longrightarrow> settings_ok config (fst (snd (open_session sv request response s)))"
  by (simp add: open_session_def split_beta session_update_ok settings_manager)

lemma session_gate_settings:
  "settings_ok config (fst s) \<Longrightarrow> session_gate sv request incoming s = Inr st \<Longrightarrow> settings_ok config st"
  by (auto simp: session_gate_def session_update_ok settings_manager split: if_splits option.splits)

lemma limiter_update_settings:
  "settings_ok config st \<Longrightarrow>
     settings_ok config (st\<lparr>fd_rate_limiter := snd (check key now created (fd_rate_limiter st))\<rparr>)"
  by (simp add: settings_ok_def check_limiter_ok)

lemma handle_mcp_settings:
  assumes "settings_ok config (fst s)"
  shows "settings_ok config (fst (snd (handle_mcp sv h ctx request s)))"
proof (cases "session_gate sv request (extract_session_id h) s")
  case (Inl resp)
  with assms show ?thesis by (simp add: handle_mcp_def split: sum.split)
next
  case (Inr st)
  note lim = limiter_update_settings [OF session_gate_settings [OF assms Inr]]
  have "settings_ok config (fst (snd (open_session sv request resp
      (snd (dispatch sv request sid c
         (st\<lparr>fd_rate_limiter := snd (check key now created (fd_rate_limiter st))\<rparr>, w))))))"
    for resp sid c key now created w
    by (intro open_session_settings dispatch_settings) (simp add: lim)
  with assms lim Inr show ?thesis by (simp add: handle_mcp_def Let_def split_beta split: sum.split)
qed

lemma delete_get_settings:
  assumes "settings_ok config (fst s)"
  shows "settings_ok config (fst (snd (delete_mcp h s)))" "settings_ok config (fst (snd (get_mcp sv h s)))"
proof -
  have "settings_ok config (st\<lparr>fd_sessions := m, fd_notifications := b\<rparr>)"
    if "settings_ok config (st\<lparr>fd_sessions := m\<rparr>)" for st :: "'b federation" and m b
    using that by (simp add: settings_ok_def)
  with assms show "settings_ok config (fst (snd (delete_mcp h s)))" "settings_ok config (fst (snd (get_mcp sv h s)))"
    by (simp_all add: delete_mcp_def get_mcp_def Let_def split_beta session_update_ok settings_manager
        split: sum.split option.split)
qed

lemma http_app_settings:
  "settings_ok config (fst s) \<Longrightarrow> settings_ok config (fst (snd (http_app ap c s)))"
  by (rule http_app_cases [of ap c s]) (simp_all add: handle_mcp_settings delete_get_settings set_registry_def)

lemma fed_step_settings:
  "fed_step ap kube dig src s s' \<Longrightarrow> settings_ok config (fst s) \<Longrightarrow> settings_ok config (fst s')"
  by (induction rule: fed_step.induct)
    (auto simp: http_app_settings dispatch_settings drop_subscription_def prune_task_round_def
      session_update_ok settings_manager split: if_splits)

section \<open>Who may change the table of leaves\<close>

text \<open>
  The abstract view of the federation is the partial map from aliases to the settings of the leaves.
  This is what each origin may do to it.
\<close>

type_synonym membership = "string \<Rightarrow> server_config option"

fun allowed_change :: "origin \<Rightarrow> membership \<Rightarrow> membership \<Rightarrow> bool" where
  "allowed_change (Request c) v v' \<longleftrightarrow>
     v' = v
     \<or> (hq_method c = ''POST'' \<and> hq_path c = ''/api/v1/servers''
         \<and> (\<exists>sc. alias_ok (sc_alias sc) \<and> sc_url sc \<noteq> [] \<and> v (sc_alias sc) = None \<and> v' = v(sc_alias sc \<mapsto> sc)))
     \<or> (hq_method c = ''DELETE'' \<and> prefix ''/api/v1/servers/'' (hq_path c) \<and> (\<exists>a. v' = v(a := None)))"
| "allowed_change (Stdio request) v v' \<longleftrightarrow> v' = v"
| "allowed_change Dns_Poll v v' \<longleftrightarrow>
     (\<forall>a. v' a = v a \<or> (prefix DNS_ALIAS_PREFIX a \<and> (v a = None \<or> v' a = None)))"
| "allowed_change (Crd_Event obj) v v' \<longleftrightarrow> (\<exists>x. v' = v(owned_alias obj := x))"
| "allowed_change Sighup v v' \<longleftrightarrow>
     v' = v
     \<or> (\<exists>cfg. validate cfg = Inr ()
           \<and> (\<forall>a. map_option connection_settings (v' a)
                 = map_option connection_settings (find (\<lambda>sc. sc_alias sc = a) (fc_servers cfg))))"
| "allowed_change (Warm_Up a) v v' \<longleftrightarrow> v' = v"
| "allowed_change (Monitor a) v v' \<longleftrightarrow> v' = v"
| "allowed_change Background v v' \<longleftrightarrow> v' = v"

lemma members_None [simp]: "members r a = None \<longleftrightarrow> leaf_at r a = None"
  by (simp add: members_def)

lemma members_of_leaf_at: "leaf_at r' = (leaf_at r)(k \<mapsto> e) \<Longrightarrow> members r' = (members r)(k \<mapsto> le_config e)"
  by (auto simp: fun_eq_iff members_def)

text \<open>The operations of the three sources, each with what it does to the table.\<close>

lemma register_server_members:
  assumes "registry_ok (fst s)"
  shows "let r' = fst (snd (snd (register_server env req s)))
    in registry_ok r' \<and>
       (members r' = members (fst s)
        \<or> (\<exists>sc. alias_ok (sc_alias sc) \<and> sc_url sc \<noteq> [] \<and> members (fst s) (sc_alias sc) = None
              \<and> members r' = (members (fst s))(sc_alias sc \<mapsto> sc)))"
proof -
  obtain reply sp r' w' where run: "register_server env req (fst s, snd s) = (reply, sp, (r', w'))"
    by (metis surj_pair)
  have k: "sc_alias (register_config req) = rr_alias req" "sc_url (register_config req) = rr_url req"
    by (simp_all add: register_config_def)
  from register_server_run [OF assms run] have "registry_ok r' \<and> (members r' = members (fst s)
      \<or> alias_ok (rr_alias req) \<and> rr_url req \<noteq> [] \<and> leaf_at (fst s) (rr_alias req) = None
        \<and> members r' = (members (fst s))(rr_alias req \<mapsto> register_config req))"
    using assms members_of_leaf_at [of r' "fst s" "rr_alias req"] by (auto simp: Let_def split: if_splits)
  with run k show ?thesis by (auto simp: Let_def intro!: exI [of _ "register_config req"])
qed

lemma deregister_server_del: "snd (deregister_server k r) = del_leaf k r"
  by (simp add: deregister_server_leaf_at)

lemma poll_once_members:
  assumes "registry_ok (fst s)"
  shows "allowed_change Dns_Poll (members (fst s)) (members (fst (snd (poll_once env dig dcfg s))))"
proof (cases "query_srv dig (srv_name dcfg) (snd s)")
  case (Pair q w)
  show ?thesis
  proof (cases q)
    case (Inr records)
    obtain r' w' where run: "reconcile env dcfg records (fst s, w) = (r', w')" by (metis surj_pair)
    have "members r' a = members (fst s) a
        \<or> (prefix DNS_ALIAS_PREFIX a \<and> (members (fst s) a = None \<or> members r' a = None))" for a
      using reconcile_at [OF assms run, of a] by (auto simp: members_def split: if_splits option.splits)
    with Pair Inr run show ?thesis by (simp add: poll_once_def)
  qed (use Pair in \<open>simp add: poll_once_def\<close>)
qed

lemma crd_reconcile_members:
  assumes "registry_ok (fst s)"
  shows "allowed_change (Crd_Event obj) (members (fst s))
    (members (fst (snd (snd (crd_reconcile env kube pool obj s)))))"
proof -
  obtain res sp r' w' where run: "crd_reconcile env kube pool obj (fst s, snd s) = (res, sp, (r', w'))"
    by (metis surj_pair)
  then have "\<exists>x. members r' = (members (fst s))(owned_alias obj := x)"
    by (cases rule: crd_reconcile_registry)
      (use assms in \<open>auto simp: members_put members_del intro: fun_upd_triv [symmetric]\<close>)
  with run show ?thesis by simp
qed

lemma on_sighup_members:
  assumes "registry_ok (fst s)"
  shows "allowed_change Sighup (members (fst s)) (members (fst (on_sighup env getenv yaml path s)))"
proof -
  define loaded where l: "loaded = config_from_file (\<lambda>p. read_to_string env p (snd s)) getenv yaml path"
  note at = reload_config_at [OF assms l, of env "snd s"]
  have r: "fst (on_sighup env getenv yaml path s) = reload_config env (snd s) loaded (fst s)"
    by (simp add: on_sighup_def l)
  show ?thesis
  proof (cases loaded)
    case (Inl e)
    then show ?thesis by (simp add: r reload_config_def)
  next
    case (Inr cfg)
    have "validate cfg = Inr ()" using config_from_file_Inr l Inr by metis
    moreover have "map_option connection_settings (members (reload_config env (snd s) loaded (fst s)) a)
        = map_option connection_settings (find (\<lambda>sc. sc_alias sc = a) (fc_servers cfg))" for a
      using at [of a] by (simp add: members_def Inr split: option.split)
    ultimately show ?thesis by (auto simp: r)
  qed
qed

lemma on_sighup_ok: "registry_ok (fst s) \<Longrightarrow> registry_ok (fst (on_sighup env getenv yaml path s))"
  by (auto simp: on_sighup_def reload_config_def Let_def intro: rt.ok_fold_del fold_reload_ok split: sum.split)

text \<open>What runs in the background evolves the entries and leaves the table alone.\<close>

lemma background_evolves:
  "evolves (fst s) (fst (crd_status_task env kube ns nm a s))"
  "evolves (fst s) (fst (warm_leaf env keep_info a s))"
  "evolves (fst s) (fst (snd (cache_tools env a s)))"
  "evolves (fst s) (fst (snd (monitor_round env a s)))"
  by (simp_all add: crd_status_task_def Let_def split_beta touches_evolves [OF touches_warm_leaf]
      cache_tools_steady [THEN steady_evolves] touches_evolves [OF monitor_round_touches])

lemma http_app_members:
  assumes "registry_ok (fd_registry (fst s))"
  shows "registry_ok (fd_registry (fst (snd (http_app ap c s))))
    \<and> allowed_change (Request c) (members (fd_registry (fst s))) (members (fd_registry (fst (snd (http_app ap c s)))))"
proof (rule http_app_cases [of ap c s])
  fix ctx request
  assume "snd (http_app ap c s) = snd (handle_mcp (ap_srv ap) (hq_headers c) ctx request s)"
  with steady_evolves [OF handle_mcp_steady, of s "ap_srv ap" "hq_headers c" ctx request] assms show ?thesis
    by (auto dest: evolves_ok evolves_members)
next
  fix req
  assume "hq_method c = ''POST''" "hq_path c = ''/api/v1/servers''" "snd (http_app ap c s) =
    set_registry (snd (snd (register_server (sv_env (ap_srv ap)) req (fd_registry (fst s), snd s)))) s"
  with register_server_members [of "(fd_registry (fst s), snd s)" "sv_env (ap_srv ap)" req] assms show ?thesis
    by (auto simp: set_registry_def Let_def)
next
  fix a
  assume "hq_method c = ''DELETE''" "prefix ''/api/v1/servers/'' (hq_path c)" "snd (http_app ap c s) =
    set_registry (snd (deregister_server a (fd_registry (fst s))), snd s) s"
  with assms show ?thesis
    by (auto simp: set_registry_def deregister_server_del rt.ok_del members_del)
qed (use assms in \<open>simp_all add: delete_get_registry\<close>)

lemma fed_step_members:
  assumes "fed_step ap kube dig src s s'" and "registry_ok (fd_registry (fst s))"
  shows "registry_ok (fd_registry (fst s'))
    \<and> allowed_change src (members (fd_registry (fst s))) (members (fd_registry (fst s')))"
  using assms
proof (induction rule: fed_step.induct)
  case (fed_http c s)
  then show ?case by (rule http_app_members)
next
  case (fed_stdio request s)
  with steady_evolves [OF dispatch_steady, of s "ap_srv ap" request None anonymous_ctx] show ?case
    by (auto dest: evolves_ok evolves_members)
next
  case (fed_dns s dcfg)
  let ?p = "(fd_registry (fst s), snd s)"
  from fed_dns poll_once_members [of ?p "sv_env (ap_srv ap)" dig dcfg] poll_once_ok [of ?p] show ?case by simp
next
  case (fed_crd obj s pool)
  let ?p = "(fd_registry (fst s), snd s)"
  from fed_crd crd_reconcile_members [of ?p obj "sv_env (ap_srv ap)" kube pool] crd_reconcile_ok [of ?p] show ?case
    by simp
next
  case (fed_sighup s getenv yaml path)
  let ?p = "(fd_registry (fst s), snd s)"
  from fed_sighup on_sighup_members [of ?p "sv_env (ap_srv ap)" getenv yaml path] on_sighup_ok [of ?p] show ?case
    by simp
next
  case (fed_crd_status a s ns nm)
  from fed_crd_status background_evolves(1) [of "(fd_registry (fst s), snd s)" "sv_env (ap_srv ap)" kube ns nm a]
  show ?case by (auto dest: evolves_ok evolves_members)
next
  case (fed_warm a s keep_info)
  from fed_warm background_evolves(2) [of "(fd_registry (fst s), snd s)" "sv_env (ap_srv ap)" keep_info a]
  show ?case by (auto dest: evolves_ok evolves_members)
next
  case (fed_task st ts a ts' w)
  from fed_task background_evolves(3) [of "(fd_registry st, w)" "sv_env (ap_srv ap)" a]
  show ?case by (auto dest: evolves_ok evolves_members)
next
  case (fed_monitor a s)
  from fed_monitor background_evolves(4) [of "(fd_registry (fst s), snd s)" "sv_env (ap_srv ap)" a]
  show ?case by (auto dest: evolves_ok evolves_members)
qed (auto simp: drop_subscription_def)

lemma start_ok: "fed_ok config (fst (start_federation env b64 rnd config w))"
  using evolves_ok [OF init_all_evolves, of "(from_configs_with_pool env w (fc_servers config)
      (fs_connection_pool (fc_federation config)), w)" env]
  by (simp add: start_federation_def Let_def split_beta fed_ok_def settings_ok_def manager_new_ok
      manager_new_ttl limiter_new_ok from_configs_ok) (simp add: rate_limiter_new_def)

lemma reachable_ok:
  assumes "fed_reachable ap kube dig (start_federation env b64 rnd config w0) s"
  shows "fed_ok config (fst s)"
  using assms
proof (induction rule: fed_reachable.induct)
  case (reach_step s src s')
  then show ?case using fed_step_settings [of ap kube dig src s s'] fed_step_members [of ap kube dig src s s']
    by (simp add: fed_ok_def)
qed (rule start_ok)

section \<open>What changes the health of a leaf\<close>

lemma register_server_health: "keeps_health (fst s) (fst (snd (snd (register_server env req s))))"
  by (auto simp: register_server_def register_insert_put Let_def split: option.split)

lemma reconcile_health: "keeps_health (fst s) (fst (reconcile env dcfg records s))"
  by (auto simp: reconcile_def Let_def split_beta intro!: keeps_health_trans [OF keeps_health_fold keeps_health_fold])

lemma poll_once_health: "keeps_health (fst s) (fst (snd (poll_once env dig dcfg s)))"
  using reconcile_health [of "(fst s, _)"] by (auto simp: poll_once_def split: prod.split sum.split)

lemma crd_reconcile_health: "keeps_health (fst s) (fst (snd (snd (crd_reconcile env kube pool obj s))))"
proof -
  obtain res sp r' w' where run: "crd_reconcile env kube pool obj (fst s, snd s) = (res, sp, (r', w'))"
    by (metis surj_pair)
  then have "keeps_health (fst s) r'" by (cases rule: crd_reconcile_registry) simp_all
  with run show ?thesis by simp
qed

lemma on_sighup_health: "keeps_health (fst s) (fst (on_sighup env getenv yaml path s))"
  by (auto simp: on_sighup_def reload_config_def reload_server_def Let_def split_beta split: sum.split
      intro!: keeps_health_trans [OF keeps_health_fold keeps_health_fold])

lemma http_app_health: "keeps_health (fd_registry (fst s)) (fd_registry (fst (snd (http_app ap c s))))"
  by (rule http_app_cases [of ap c s])
    (simp_all add: steady_keeps_health handle_mcp_steady delete_get_registry set_registry_def
      deregister_server_del register_server_health [of "(fd_registry (fst s), snd s)", simplified])

text \<open>A step other than a warm-up and a monitor's round changes no leaf's health.\<close>

lemma background_touches:
  "touches a (fst s) (fst (crd_status_task env kube ns nm a s))"
  "touches a (fst s) (fst (warm_leaf env keep_info a s))"
  "touches a (fst s) (fst (snd (monitor_round env a s)))"
  by (simp_all add: crd_status_task_def Let_def split_beta touches_warm_leaf monitor_round_touches)

lemma fed_step_health_cases:
  assumes "fed_step ap kube dig src s s'"
  shows "keeps_health (fd_registry (fst s)) (fd_registry (fst s'))
    \<or> (\<exists>b. (src = Warm_Up b \<or> src = Monitor b) \<and> touches b (fd_registry (fst s)) (fd_registry (fst s')))"
  using assms
proof (induction rule: fed_step.induct)
  case (fed_stdio request s)
  then show ?case by (simp add: steady_keeps_health dispatch_steady)
next
  case (fed_task st ts a ts' w)
  show ?case
    using steady_keeps_health [OF cache_tools_steady, of "(fd_registry st, w)" "sv_env (ap_srv ap)" a] by simp
qed (simp_all add: http_app_health poll_once_health [of "(_, _)", simplified]
    crd_reconcile_health [of "(_, _)", simplified] on_sighup_health [of "(_, _)", simplified]
    background_touches [of _ "(_, _)", simplified] drop_subscription_def)

text \<open>Only the warm-up and the monitor of a leaf change its health.\<close>

lemma fed_step_health:
  assumes "fed_step ap kube dig src s s'" and "a < length (leaf_heap (fd_registry (fst s)))"
    and "src \<noteq> Warm_Up a" and "src \<noteq> Monitor a"
  shows "a < length (leaf_heap (fd_registry (fst s')))
    \<and> vitals (entry (fd_registry (fst s')) a) = vitals (entry (fd_registry (fst s)) a)"
  using fed_step_health_cases [OF assms(1)] assms(2-4) by (auto simp: keeps_health_def touches_def)

section \<open>The tasks that are running\<close>

text \<open>
  The steps again, with the background tasks counted.  A monitor runs for the addresses that got one
  at start-up.  Whoever adds an entry (the registry API, either discovery, a reload) spawns one warm-up
  for it, which runs once.
\<close>

abbreviation heap_size :: "'tx federation \<times> 'w \<Rightarrow> nat" where
  "heap_size s \<equiv> length (leaf_heap (fd_registry (fst s)))"

fun runnable :: "nat list \<Rightarrow> nat list \<Rightarrow> origin \<Rightarrow> bool" where
  "runnable monitors pending (Monitor a) \<longleftrightarrow> a \<in> set monitors"
| "runnable monitors pending (Warm_Up a) \<longleftrightarrow> a \<in> set pending"
| "runnable monitors pending _ \<longleftrightarrow> True"

definition pending_after ::
  "nat list \<Rightarrow> origin \<Rightarrow> 'tx federation \<times> 'w \<Rightarrow> 'tx federation \<times> 'w \<Rightarrow> nat list" where
  "pending_after pending src s s' =
     (case src of Warm_Up a \<Rightarrow> remove1 a pending | _ \<Rightarrow> pending) @ [heap_size s ..< heap_size s']"

inductive task_step ::
  "('w, 'tx) app \<Rightarrow> 'w kube \<Rightarrow> 'w dig \<Rightarrow> nat list
   \<Rightarrow> nat list \<times> 'tx federation \<times> 'w \<Rightarrow> nat list \<times> 'tx federation \<times> 'w \<Rightarrow> bool"
  for ap :: "('w, 'tx) app" and kube :: "'w kube" and dig :: "'w dig" and monitors :: "nat list" where
  task_step: "fed_step ap kube dig src s s' \<Longrightarrow> runnable monitors pending src
    \<Longrightarrow> task_step ap kube dig monitors (pending, s) (pending_after pending src s s', s')"

inductive_cases task_stepE: "task_step ap kube dig monitors x y"

lemma pending_after_old:
  "a < heap_size s \<Longrightarrow> a \<notin> set pending \<Longrightarrow> a \<notin> set (pending_after pending src s s')"
  using set_remove1_subset [of _ pending] by (auto simp: pending_after_def split: origin.splits)

lemma runnable_not_mine:
  "runnable monitors pending src \<Longrightarrow> a \<notin> set monitors \<Longrightarrow> a \<notin> set pending \<Longrightarrow> src \<noteq> Warm_Up a \<and> src \<noteq> Monitor a"
  by auto

lemma task_run_health:
  assumes "(task_step ap kube dig monitors)\<^sup>*\<^sup>* x y" and "a \<notin> set monitors" "a \<notin> set (fst x)" "a < heap_size (snd x)"
  shows "a \<notin> set (fst y) \<and> a < heap_size (snd y)
    \<and> vitals (entry (fd_registry (fst (snd y))) a) = vitals (entry (fd_registry (fst (snd x))) a)"
  using assms(1)
proof (induction rule: rtranclp_induct)
  case (step y z)
  from step(2) obtain src s s' pending where z: "y = (pending, s)" "z = (pending_after pending src s s', s')"
      "fed_step ap kube dig src s s'" "runnable monitors pending src"
    by (auto elim: task_stepE)
  with step.IH assms(2) have "src \<noteq> Warm_Up a \<and> src \<noteq> Monitor a" by (intro runnable_not_mine [OF z(4)]) auto
  with fed_step_health [OF z(3), of a] pending_after_old [of a s pending src s'] step.IH z show ?case by simp
qed (use assms in simp)

lemma monitors_in_heap:
  assumes "registry_ok r" and "a \<in> set (start_health_monitor r)"
  shows "a < length (leaf_heap r)"
proof -
  from assms(2) obtain k where "(k, a) \<in> set (leaves r)" by (auto simp: start_health_monitor_def all_leaves_def)
  then have "get_leaf k r = Some a" using assms(1) by (simp add: registry_ok_def get_leaf_def hm_entry_iff)
  with assms(1) show ?thesis by (simp add: registry_ok_def)
qed

section \<open>The life of a session\<close>

text \<open>Whatever a step does to the sessions is a history of the manager's own operations.\<close>

lemma dispatch_follows: "follows lib (fd_sessions (fst s)) (fd_sessions (fst (snd (dispatch sv request sid ctx s))))"
  by (simp add: dispatch_def Let_def handle_tools_list_def split_beta handle_tools_call_def respond_route_state
      handle_resources_list_def handle_resources_read_def handle_prompts_list_def handle_prompts_get_def
      handle_logging_set_level_def split: option.split)

lemma open_session_follows:
  "follows (sv_jwt sv) (fd_sessions (fst s)) (fd_sessions (fst (snd (open_session sv request response s))))"
  by (simp add: open_session_def split_beta)

lemma session_gate_follows:
  "session_gate sv request incoming s = Inr st \<Longrightarrow> follows lib (fd_sessions (fst s)) (fd_sessions st)"
  by (auto simp: session_gate_def split: if_splits option.splits)

lemma handle_mcp_follows:
  "follows (sv_jwt sv) (fd_sessions (fst s)) (fd_sessions (fst (snd (handle_mcp sv h ctx request s))))"
proof (cases "session_gate sv request (extract_session_id h) s")
  case (Inl resp)
  then show ?thesis by (simp add: handle_mcp_def split: sum.split)
next
  case (Inr st)
  have "follows (sv_jwt sv) (fd_sessions st) (fd_sessions (fst (snd (open_session sv request resp
      (snd (dispatch sv request sid c (st\<lparr>fd_rate_limiter := l\<rparr>, w)))))))" for resp sid c l w
    using follows_trans [OF dispatch_follows [where s = "(st\<lparr>fd_rate_limiter := l\<rparr>, w)" and sv = sv and request = request
          and sid = sid and ctx = c] open_session_follows [where request = request and response = resp]] by simp
  then have "follows (sv_jwt sv) (fd_sessions (fst s)) (fd_sessions (fst (snd (open_session sv request resp
      (snd (dispatch sv request sid c (st\<lparr>fd_rate_limiter := l\<rparr>, w)))))))" for resp sid c l w
    by (rule follows_trans [OF session_gate_follows [OF Inr]])
  with Inr session_gate_follows [OF Inr] show ?thesis
    by (simp add: handle_mcp_def Let_def split_beta split: sum.split)
qed

lemma delete_get_follows:
  "follows lib (fd_sessions (fst s)) (fd_sessions (fst (snd (delete_mcp h s))))"
  "follows lib (fd_sessions (fst s)) (fd_sessions (fst (snd (get_mcp sv h s))))"
  by (simp_all add: delete_mcp_def get_mcp_def Let_def split_beta split: sum.split option.split)

lemma fed_step_follows:
  "fed_step ap kube dig src s s' \<Longrightarrow> follows (sv_jwt (ap_srv ap)) (fd_sessions (fst s)) (fd_sessions (fst s'))"
proof (induction rule: fed_step.induct)
  case (fed_http c s)
  show ?case
    by (rule http_app_cases [of ap c s]) (simp_all add: handle_mcp_follows delete_get_follows set_registry_def)
qed (auto simp: dispatch_follows drop_subscription_def prune_task_round_def split: if_splits)

text \<open>A run of the system with what it did to the sessions.\<close>

inductive session_trace ::
  "('w, 'tx) app \<Rightarrow> 'w kube \<Rightarrow> 'w dig \<Rightarrow> 'tx federation \<times> 'w \<Rightarrow> session_event list \<Rightarrow> 'tx federation \<times> 'w \<Rightarrow> bool"
  for ap :: "('w, 'tx) app" and kube :: "'w kube" and dig :: "'w dig" and s0 :: "'tx federation \<times> 'w" where
  trace_start: "session_trace ap kube dig s0 [] s0"
| trace_step: "session_trace ap kube dig s0 es s \<Longrightarrow> fed_step ap kube dig src s s'
    \<Longrightarrow> fd_sessions (fst s') = session_run (sv_jwt (ap_srv ap)) es' (fd_sessions (fst s))
    \<Longrightarrow> session_trace ap kube dig s0 (es @ es') s'"

text \<open>Every run has such a trace, and a trace tells the sessions at its end.\<close>

lemma session_trace_exists:
  assumes "fed_reachable ap kube dig s0 s"
  shows "\<exists>es. session_trace ap kube dig s0 es s"
  using assms
proof (induction rule: fed_reachable.induct)
  case (reach_step s src s')
  then show ?case using fed_step_follows [OF reach_step(2)] unfolding follows_def by (blast intro: trace_step)
qed (blast intro: trace_start)

lemma session_trace_run:
  "session_trace ap kube dig s0 es s
     \<Longrightarrow> fd_sessions (fst s) = session_run (sv_jwt (ap_srv ap)) es (fd_sessions (fst s0))"
  by (induction rule: session_trace.induct) (simp_all add: session_run_def)

text \<open>No step changes the keys the sessions are signed and verified with.\<close>

lemma reachable_keys:
  assumes "fed_reachable ap kube dig s0 s"
  shows "encoding_key (fd_sessions (fst s)) = encoding_key (fd_sessions (fst s0))"
    and "decoding_key (fd_sessions (fst s)) = decoding_key (fd_sessions (fst s0))"
proof -
  from session_trace_exists [OF assms] obtain es where "session_trace ap kube dig s0 es s" ..
  from session_trace_run [OF this]
  show "encoding_key (fd_sessions (fst s)) = encoding_key (fd_sessions (fst s0))"
    and "decoding_key (fd_sessions (fst s)) = decoding_key (fd_sessions (fst s0))" by simp_all
qed

text \<open>Who hands out a session: an \<open>initialize\<close> that was not refused.\<close>

lemma check_origin_no_session: "check_origin allowed h = Inl r \<Longrightarrow> rp_session r = None"
  by (auto simp: check_origin_def text_reply_def Let_def split: if_splits)

lemma session_gate_no_session: "session_gate sv request incoming s = Inl r \<Longrightarrow> rp_session r = None"
  by (auto simp: session_gate_def text_reply_def split: if_splits option.splits)

lemma delete_get_no_session:
  "rp_session (fst (delete_mcp h s)) = None" "rp_session (fst (get_mcp sv h s)) = None"
  by (auto simp: delete_mcp_def get_mcp_def text_reply_def Let_def split_beta
      split: sum.split option.split dest: check_origin_no_session)

lemma open_session_initialize:
  assumes "open_session sv request (handle_initialize request) s = (Some sid, s')" and "sv_uuid sv (snd s) = (uuid, w)"
  shows "create_session (sv_jwt sv) uuid (sv_unix sv w) (clock (sv_env sv) w) None (fd_sessions (fst s)) = (sid, fd_sessions (fst s'))"
  using assms by (auto simp: open_session_def initialize_no_client_info split: if_splits prod.splits)

lemma handle_mcp_opens:
  assumes "handle_mcp sv h ctx request s = (r, s')" and "rp_session r = Some sid" and "sv_uuid sv (snd s) = (uuid, w)"
  shows "create_session (sv_jwt sv) uuid (sv_unix sv w) (clock (sv_env sv) w) None (fd_sessions (fst s)) = (sid, fd_sessions (fst s'))"
proof -
  obtain st l where gate: "session_gate sv request (extract_session_id h) s = Inr st"
    and op: "\<exists>c. open_session sv request (fst (dispatch sv request (extract_session_id h) c (st\<lparr>fd_rate_limiter := l\<rparr>, snd s)))
        (snd (dispatch sv request (extract_session_id h) c (st\<lparr>fd_rate_limiter := l\<rparr>, snd s))) = (Some sid, s')"
    using assms(1,2)
    by (auto simp: handle_mcp_def Let_def split_beta dest: check_origin_no_session session_gate_no_session
        split: sum.splits if_splits option.splits) (metis prod.collapse)+
  from op have m: "rq_method request = ''initialize''" by (auto simp: open_session_def split: if_splits)
  with gate have "st = fst s" by (simp add: session_gate_def)
  with op m open_session_initialize [of sv request "(fst s\<lparr>fd_rate_limiter := l\<rparr>, snd s)" sid s' uuid w] assms(3)
  show ?thesis by (auto simp: dispatch_initialize)
qed

lemma api_router_not_mcp: "fst (api_router ap path c s) \<noteq> McpReply r"
  by (auto simp: api_router_def post_servers_def delete_server_def show_server_def plain_def Let_def split_beta
      split: option.split sum.split)

lemma endpoint_mcp: "endpoint ap c ctx s = (McpReply r, s') \<Longrightarrow> mcp_endpoint ap c ctx s = (McpReply r, s')"
  using api_router_not_mcp [of ap _ c s r]
  by (auto simp: endpoint_def read_only_def healthz_def metrics_handler_def status_handler_def plain_def Let_def
      split: if_splits option.splits) (metis fst_conv)+

lemma head_of_session: "head_of reply = McpReply r \<Longrightarrow> \<exists>r0. reply = McpReply r0 \<and> rp_session r0 = rp_session r"
  by (cases reply) auto

lemma mcp_endpoint_post:
  assumes "mcp_endpoint ap c ctx s = (McpReply r, s')" and "rp_session r = Some sid"
  shows "hq_method c = ''POST'' \<and> (\<exists>request. handle_mcp (ap_srv ap) (hq_headers c) ctx request s = (r, s'))"
  using assms delete_get_no_session(1) [where h = "hq_headers c" and s = s]
    delete_get_no_session(2) [where h = "hq_headers c" and s = s and sv = "ap_srv ap"]
  by (auto simp: mcp_endpoint_def plain_def split: sum.splits if_splits prod.splits)

lemma http_app_opens:
  assumes "http_app ap c s = (McpReply r, s')" and "rp_session r = Some sid" and "sv_uuid (ap_srv ap) (snd s) = (uuid, w)"
  shows "create_session (sv_jwt (ap_srv ap)) uuid (sv_unix (ap_srv ap) w) (clock (sv_env (ap_srv ap)) w) None
     (fd_sessions (fst s)) = (sid, fd_sessions (fst s'))"
proof -
  have "\<exists>ctx request. handle_mcp (ap_srv ap) (hq_headers c) ctx request s = (r, s')"
  proof (cases "hq_method c = ''HEAD''")
    case True
    with assms(1) obtain ctx r0 where "endpoint ap c ctx s = (McpReply r0, s')" "rp_session r0 = rp_session r"
      by (auto simp: http_app_def plain_def split: if_splits option.splits prod.splits dest!: head_of_session)
    with mcp_endpoint_post [OF endpoint_mcp] assms(2) True show ?thesis by fastforce
  next
    case False
    with assms(1) obtain ctx where "endpoint ap c ctx s = (McpReply r, s')"
      by (auto simp: http_app_def plain_def split: if_splits option.splits prod.splits)
    with mcp_endpoint_post [OF endpoint_mcp] assms(2) show ?thesis by blast
  qed
  with handle_mcp_opens [OF _ assms(2,3)] show ?thesis by blast
qed

text \<open>A request in a session is refused with 404 exactly when the manager does not accept the session.\<close>

lemma session_accepted_iff:
  assumes "hq_method c = ''POST''" and "hq_path c = ''/mcp''"
    and "auth_middleware (sv_env (ap_srv ap)) w (ap_auth ap) ''/mcp'' (hq_headers c ''authorization'') = Some (Some ctx)"
    and "ap_rpc_body ap (hq_headers c) (hq_body c) = Inr request" and "rq_method request \<noteq> ''initialize''"
    and "check_origin (fd_allowed_origins st) (hq_headers c) = Inr ()"
    and "hq_headers c MCP_SESSION_HEADER = Some sid"
  shows "\<exists>r s'. http_app ap c (st, w) = (McpReply r, s')
    \<and> (rp_status r \<noteq> 404 \<longleftrightarrow>
         validate_session (sv_jwt (ap_srv ap)) (sv_unix (ap_srv ap) w) (clock (sv_env (ap_srv ap)) w) sid (fd_sessions st))"
proof -
  obtain r s' where h: "handle_mcp (ap_srv ap) (hq_headers c) (Some ctx) request (st, w) = (r, s')"
    by (metis surj_pair)
  have sid: "extract_session_id (hq_headers c) = Some sid" using assms(7) by (simp add: extract_session_id_def)
  have "rp_status r \<noteq> 404 \<longleftrightarrow>
      validate_session (sv_jwt (ap_srv ap)) (sv_unix (ap_srv ap) w) (clock (sv_env (ap_srv ap)) w) sid (fd_sessions st)"
    using h assms(5,6) sid
    by (auto simp: handle_mcp_def session_gate_def text_reply_def Let_def split_beta split: if_splits)
  moreover have "http_app ap c (st, w) = (McpReply r, s')"
    using h assms(1-4) by (simp add: http_app_def endpoint_def mcp_endpoint_def)
  ultimately show ?thesis by blast
qed

end
