(* ===== verification/Fed_Cli.thy ===== *)
theory Fed_Cli
  imports Fed_Main Fed_Health Fed_Dns Fed_Crd "HOL-Library.Product_Lexorder" "HOL-Library.Multiset"
begin

text \<open>
  The program from its command line to its exit status (\<open>main\<close>, \<open>run_http\<close>, \<open>run_https\<close> in
  \<open>src/src/main.rs\<close>): checking a configuration, listing the tools, starting the server with its background
  tasks, and how serving ends.  The reader of the command line, logging, sockets and signals are outside.
\<close>

section \<open>The table of tools\<close>

text \<open>The number of characters of a string: the bytes that do not continue one.\<close>

definition char_count :: "string \<Rightarrow> nat" where
  "char_count s = length (filter (\<lambda>c. \<not> in_range 0x80 0xBF c) s)"

text \<open>\<open>{:<w$}\<close>: blanks on the right up to a number of characters.\<close>

definition pad_right :: "nat \<Rightarrow> string \<Rightarrow> string" where
  "pad_right w s = s @ replicate (w - char_count s) (CHR '' '')"

type_synonym tool_row = "string \<times> string \<times> string"

definition table_row :: "json \<Rightarrow> tool_row" where
  "table_row tool =
     (let namespaced = json_str_or_empty tool ''name'';
          description = json_str_or_empty tool ''description''
      in case split_once ''__'' namespaced of
           Some (a, n) \<Rightarrow> (a, n, description)
         | None \<Rightarrow> ([], namespaced, description))"

definition sort_rows :: "tool_row list \<Rightarrow> tool_row list" where
  "sort_rows rows = sort_key (\<lambda>(a, n, d). (a, n)) rows"

text \<open>The width of a column: the longest cell in bytes, its heading included.\<close>

definition column_width :: "string \<Rightarrow> string list \<Rightarrow> nat" where
  "column_width heading cells = fold max (map length cells) (length heading)"

definition table_line :: "nat \<Rightarrow> nat \<Rightarrow> tool_row \<Rightarrow> string" where
  "table_line alias_w name_w row =
     (case row of (a, n, d) \<Rightarrow> pad_right alias_w a @ ''  '' @ pad_right name_w n @ ''  '' @ d)"

text \<open>The lines on the standard output and those on the error output.\<close>

definition print_tools_table :: "json list \<Rightarrow> registry \<Rightarrow> string list \<times> string list" where
  "print_tools_table tools r =
     (let rows = sort_rows (map table_row tools);
          alias_w = column_width ''Leaf'' (map fst rows);
          name_w = column_width ''Tool'' (map (fst \<circ> snd) rows);
          unreachable = map (\<lambda>a. sc_alias (le_config (entry r a)))
            (filter (\<lambda>a. health (entry r a) = Unhealthy) (all_leaves r))
      in (table_line alias_w name_w (''Leaf'', ''Tool'', ''Description'')
          # table_line alias_w name_w
              (replicate alias_w (CHR ''-''), replicate name_w (CHR ''-''), ''-----------'')
          # map (table_line alias_w name_w) rows,
          if unreachable \<noteq> []
          then [[LF] @ ''warning: unreachable leaves omitted: '' @ str_join '', '' unreachable] else []))"

section \<open>The main program\<close>

record cli =
  cli_config :: string
  cli_http :: bool
  cli_listen :: "string option"
  cli_auth_token :: "string option"
  cli_auth_token_file :: "string option"
  cli_tls_cert :: "string option"
  cli_tls_key :: "string option"
  cli_log_format :: string
  cli_list_tools :: bool
  cli_validate :: bool

text \<open>
  What surrounds the program: the leaves and files, the process environment, the YAML reader, the
  base64 reader, the random key, the build option and API of the CRD watcher, and, for the ten seconds
  of \<open>--list-tools\<close>, the state when they are over before all leaves have answered.
\<close>

record 'w host =
  ho_env :: "'w env"
  ho_getenv :: "string \<Rightarrow> string option"
  ho_yaml :: "string \<Rightarrow> string + federation_config"
  ho_base64 :: "string \<Rightarrow> string + string"
  ho_random :: string
  ho_crd_feature :: bool
  ho_kube :: "'w kube"
  ho_timed_out :: "registry \<times> 'w \<Rightarrow> (registry \<times> 'w) option"

datatype serving =
    Serve_Stdio
  | Serve_Http string auth_state
  | Serve_Https string string string auth_state u64

text \<open>The background tasks of a running server.\<close>

record tasks =
  tk_monitors :: "nat list"
  tk_dns :: "duration option"
  tk_crd :: "watch_scope option"
  tk_listeners :: "nat list"
  tk_reloader :: bool

text \<open>The process ends with a code and its output, or serves.\<close>

datatype 'tx outcome =
    Exit nat "string list" "string list"
  | Serving "'tx federation" tasks serving

definition load_config :: "'w host \<Rightarrow> cli \<Rightarrow> 'w \<Rightarrow> federation_error + federation_config" where
  "load_config host cli w =
     config_from_file (\<lambda>p. read_to_string (ho_env host) p w) (ho_getenv host) (ho_yaml host) (cli_config cli)"

definition validate_only :: "federation_error + federation_config \<Rightarrow> 'tx outcome" where
  "validate_only loaded =
     (case loaded of
        Inr cfg \<Rightarrow> Exit 0 [''Config OK: '' @ show_nat (length (fc_servers cfg)) @ '' servers configured''] []
      | Inl e \<Rightarrow> Exit 1 [] [''Config error: '' @ error_to_string e])"

definition list_tools_only :: "'w host \<Rightarrow> federation_config \<Rightarrow> 'w \<Rightarrow> 'tx outcome \<times> 'w" where
  "list_tools_only host cfg w =
     (let settings = fc_federation cfg;
          s0 = (from_configs_with_pool (ho_env host) w (fc_servers cfg) (fs_connection_pool settings), w);
          (late, s1) = (case ho_timed_out host s0 of
                          Some s \<Rightarrow> ([''warning: leaf initialization timed out after 10s''], s)
                        | None \<Rightarrow> ([], initialize_all (ho_env host) s0));
          tools = fst (aggregated_tools (duration_from_secs (tool_cache_ttl_seconds settings))
                         (\<lambda>a. clock (ho_env host) (snd s1)) (fst s1));
          (out, err) = print_tools_table tools (fst s1)
      in (Exit 0 out (late @ err), snd s1))"

definition choose_server :: "cli \<Rightarrow> federation_settings \<Rightarrow> serving option" where
  "choose_server cli settings =
     (let listen = (case cli_listen cli of Some l \<Rightarrow> l | None \<Rightarrow> fs_listen settings);
          auth = start_auth (cli_auth_token cli) (cli_auth_token_file cli) settings
      in if cli_http cli then
           (case (cli_tls_cert cli, cli_tls_key cli) of
              (Some cert, Some key) \<Rightarrow> Some (Serve_Https listen cert key auth (shutdown_timeout_seconds settings))
            | (None, None) \<Rightarrow> Some (Serve_Http listen auth)
            | _ \<Rightarrow> None)
         else Some Serve_Stdio)"

definition main_program :: "'w host \<Rightarrow> cli \<Rightarrow> 'w \<Rightarrow> 'tx outcome \<times> 'w" where
  "main_program host cli w =
     (if cli_validate cli then (validate_only (load_config host cli w), w)
      else case load_config host cli w of
             Inl e \<Rightarrow> (Exit 1 [] [''Failed to load config: '' @ error_to_string e], w)
           | Inr cfg \<Rightarrow>
               if cli_list_tools cli then list_tools_only host cfg w
               else
                 (let settings = fc_federation cfg;
                      (st, w1) = start_federation (ho_env host) (ho_base64 host) (ho_random host) cfg w;
                      (crd, w2) = start_crd_watcher (ho_crd_feature host) (ho_kube host) (fs_crd_discovery settings) w1;
                      tasks = \<lparr>tk_monitors = start_health_monitor (fd_registry st),
                               tk_dns = spawn_dns_discovery (fs_dns_discovery settings), tk_crd = crd,
                               tk_listeners = leaf_notification_listeners (fd_registry st),
                               tk_reloader = cli_http cli\<rparr>
                  in (case choose_server cli settings of
                        Some mode \<Rightarrow> Serving st tasks mode
                      | None \<Rightarrow> Exit 1 [] [''Error: --tls-cert and --tls-key must both be provided for TLS''], w2)))"

section \<open>The running process\<close>

text \<open>
  What the operating system and the server library do for a process that serves: the recorder of the
  metrics, listening sockets, certificates, the reading of a socket address, and serving until the end
  (with an error when the library gives up; with TLS it also opens the socket).
\<close>

record 'w os =
  os_install_recorder :: "'w \<Rightarrow> (string + unit) \<times> 'w"
  os_bind :: "string \<Rightarrow> 'w \<Rightarrow> (string + unit) \<times> 'w"
  os_serve :: "auth_state \<Rightarrow> 'w \<Rightarrow> (string + unit) \<times> 'w"
  os_from_pem_file :: "string \<Rightarrow> string \<Rightarrow> 'w \<Rightarrow> (string + unit) \<times> 'w"
  os_socket_addr :: "string \<Rightarrow> string + string"
  os_serve_rustls :: "string \<Rightarrow> duration \<Rightarrow> auth_state \<Rightarrow> 'w \<Rightarrow> (string + unit) \<times> 'w"
  os_stdio :: "'w \<Rightarrow> 'w"

text \<open>A function returns, or panics with a message.\<close>

datatype ending = Returned | Panicked string

definition expect :: "string \<Rightarrow> (string + 'a) \<times> 'w \<Rightarrow> ('w \<Rightarrow> ending \<times> 'w) \<Rightarrow> ending \<times> 'w" where
  "expect msg r k = (case r of (Inl e, w) \<Rightarrow> (Panicked (msg @ '': '' @ e), w) | (Inr v, w) \<Rightarrow> k w)"

definition run_http :: "'w os \<Rightarrow> string \<Rightarrow> auth_state \<Rightarrow> 'w \<Rightarrow> ending \<times> 'w" where
  "run_http os listen auth w =
     expect ''Failed to install Prometheus recorder'' (os_install_recorder os w) (\<lambda>w1.
     expect ''Failed to bind listener'' (os_bind os listen w1) (\<lambda>w2.
     (Returned, snd (os_serve os auth w2))))"

definition run_https ::
  "'w os \<Rightarrow> string \<Rightarrow> string \<Rightarrow> string \<Rightarrow> auth_state \<Rightarrow> u64 \<Rightarrow> 'w \<Rightarrow> ending \<times> 'w" where
  "run_https os listen cert_path key_path auth secs w =
     expect ''Failed to install Prometheus recorder'' (os_install_recorder os w) (\<lambda>w1.
     expect ''Failed to load TLS cert/key'' (os_from_pem_file os cert_path key_path w1) (\<lambda>w2.
     (case os_socket_addr os listen of
        Inl e \<Rightarrow> (Panicked (''Invalid listen address'' @ '': '' @ e), w2)
      | Inr addr \<Rightarrow>
          (Returned, snd (os_serve_rustls os addr (duration_from_secs secs) auth w2)))))"

text \<open>The end of \<open>main\<close> in each mode; a panic of the main thread ends the process with 101.\<close>

definition run_server :: "'w os \<Rightarrow> serving \<Rightarrow> 'w \<Rightarrow> ending \<times> 'w" where
  "run_server os mode w =
     (case mode of
        Serve_Stdio \<Rightarrow> (Returned, os_stdio os w)
      | Serve_Http listen auth \<Rightarrow> run_http os listen auth w
      | Serve_Https listen cert key auth secs \<Rightarrow> run_https os listen cert key auth secs w)"

definition exit_status :: "'w host \<Rightarrow> 'w os \<Rightarrow> cli \<Rightarrow> 'w \<Rightarrow> nat" where
  "exit_status host os cli w =
     (case main_program host cli w :: unit outcome \<times> 'w of
        (Exit code out err, w') \<Rightarrow> code
      | (Serving st tasks mode, w') \<Rightarrow>
          (case fst (run_server os mode w') of Returned \<Rightarrow> 0 | Panicked m \<Rightarrow> 101))"

section \<open>Facts: the table of tools\<close>

lemma char_count_le: "char_count s \<le> length s"
  by (simp add: char_count_def)

lemma pad_right_width: "char_count s \<le> w \<Longrightarrow> char_count (pad_right w s) = w"
  by (simp add: pad_right_def char_count_def in_range_def)

lemma fold_max_ge: "(m :: nat) \<le> fold max xs m"
  by (induction xs arbitrary: m) (simp, metis fold_simps(2) max.bounded_iff)

lemma fold_max_bound: "x \<in> set xs \<Longrightarrow> (x :: nat) \<le> fold max xs m"
proof (induction xs arbitrary: m)
  case (Cons y ys)
  then show ?case
    using fold_max_ge [of "max y m" ys] by auto
qed simp

lemma column_width_ge: "c \<in> set cells \<Longrightarrow> char_count c \<le> column_width heading cells"
  using fold_max_bound [of "length c" "map length cells" "length heading"] char_count_le [of c]
  by (auto simp: column_width_def)

text \<open>C37: The table of tools is complete, ordered and aligned: below the two heading lines it has one
  line for each tool of the listing, none lost and none twice, in increasing order of leaf and tool
  name, and in every line each of the first two cells fills its column exactly.\<close>

theorem tools_table_correct:
  "\<exists>rows aw nw head. fst (print_tools_table tools r) = head @ map (table_line aw nw) rows
     \<and> length head = 2
     \<and> mset rows = mset (map table_row tools)
     \<and> sorted (map (\<lambda>(a, n, d). (a, n)) rows)
     \<and> list_all (\<lambda>(a, n, d). char_count (pad_right aw a) = aw \<and> char_count (pad_right nw n) = nw) rows"
proof -
  let ?rows = "sort_rows (map table_row tools)"
  let ?aw = "column_width ''Leaf'' (map fst ?rows)" and ?nw = "column_width ''Tool'' (map (fst \<circ> snd) ?rows)"
  have "\<exists>head. fst (print_tools_table tools r) = head @ map (table_line ?aw ?nw) ?rows \<and> length head = 2"
    by (rule exI [of _ "[table_line ?aw ?nw (''Leaf'', ''Tool'', ''Description''),
          table_line ?aw ?nw (replicate ?aw (CHR ''-''), replicate ?nw (CHR ''-''), ''-----------'')]"])
      (simp add: print_tools_table_def Let_def)
  moreover have "mset ?rows = mset (map table_row tools)"
    "sorted (map (\<lambda>(a, n, d). (a, n)) ?rows)"
    by (simp_all add: sort_rows_def)
  moreover have "list_all (\<lambda>(a, n, d). char_count (pad_right ?aw a) = ?aw \<and> char_count (pad_right ?nw n) = ?nw) ?rows"
    by (force simp: list_all_iff intro!: pad_right_width column_width_ge)
  ultimately show ?thesis by blast
qed

section \<open>Facts: how the program ends or what it serves\<close>

lemma from_configs_members:
  assumes "validate cfg = Inr ()"
  shows "members (from_configs_with_pool env w (fc_servers cfg) pool) =
     (\<lambda>a. find (\<lambda>sc. sc_alias sc = a) (fc_servers cfg))"
proof
  fix a
  note reg = startup_registers_all [OF assms, of env w pool]
  show "members (from_configs_with_pool env w (fc_servers cfg) pool) a = find (\<lambda>sc. sc_alias sc = a) (fc_servers cfg)"
  proof (cases "find (\<lambda>sc. sc_alias sc = a) (fc_servers cfg)")
    case None
    then have "a \<notin> set (aliases (from_configs_with_pool env w (fc_servers cfg) pool))"
      using reg by (auto simp: find_None_iff)
    with None show ?thesis by (simp add: aliases_leaf_at members_def)
  next
    case (Some sc)
    then have "sc \<in> set (fc_servers cfg)" "sc_alias sc = a" by (auto simp: find_Some_iff)
    with reg Some show ?thesis by (auto simp: members_def leaf_new_with_pool_def)
  qed
qed

lemma start_federation_members:
  assumes "validate cfg = Inr ()"
  shows "members (fd_registry (fst (start_federation env b64 rnd cfg w))) =
     (\<lambda>a. find (\<lambda>sc. sc_alias sc = a) (fc_servers cfg))"
  using evolves_members [OF init_all_evolves, where s1 = "(from_configs_with_pool env w (fc_servers cfg)
      (fs_connection_pool (fc_federation cfg)), w)" and env1 = env] from_configs_members [OF assms]
  by (simp add: start_federation_def Let_def split_beta)

lemma start_federation_decided:
  "leaf_at (fd_registry (fst (start_federation env b64 rnd cfg w))) a = Some e \<Longrightarrow> health e \<noteq> Unknown"
  using initialize_all_decides [OF from_configs_ok [of env w "fc_servers cfg"
      "fs_connection_pool (fc_federation cfg)"], where env = env and w = w and name = a]
  by (simp add: start_federation_def Let_def split_beta)

text \<open>C18: The program serves only a validated configuration, and all of it: when it starts to serve, the
  file was read and accepted, the table of leaves is exactly the list of servers in the file, every
  leaf has been tried and found healthy or unhealthy, and a leaf is monitored exactly when its
  configuration asks for it; a certificate comes with its key.\<close>

theorem startup_complete:
  assumes "main_program host cli w = (Serving st tasks mode, w')"
  shows "\<exists>cfg. load_config host cli w = Inr cfg \<and> validate cfg = Inr ()
    \<and> members (fd_registry st) = (\<lambda>a. find (\<lambda>sc. sc_alias sc = a) (fc_servers cfg))
    \<and> (\<nexists>a e. leaf_at (fd_registry st) a = Some e \<and> health e = Unknown)
    \<and> set (tk_monitors tasks) =
        {i \<in> set (all_leaves (fd_registry st)). hc_enabled (sc_health_check (le_config (entry (fd_registry st) i)))}
    \<and> (mode = Serve_Stdio \<or> (cli_tls_cert cli = None \<longleftrightarrow> cli_tls_key cli = None))"
proof -
  obtain cfg where cfg: "load_config host cli w = Inr cfg"
    and st: "st = fst (start_federation (ho_env host) (ho_base64 host) (ho_random host) cfg w)"
    and tk: "tk_monitors tasks = start_health_monitor (fd_registry st)"
    and mode: "choose_server cli (fc_federation cfg) = Some mode"
    using assms
    by (auto simp: main_program_def validate_only_def list_tools_only_def Let_def split_beta
        split: if_splits sum.splits option.splits)
  have v: "validate cfg = Inr ()" using cfg by (auto simp: load_config_def dest: config_from_file_Inr)
  have "mode = Serve_Stdio \<or> (cli_tls_cert cli = None \<longleftrightarrow> cli_tls_key cli = None)"
    using mode by (auto simp: choose_server_def Let_def split: if_splits option.splits)
  moreover have "health e \<noteq> Unknown" if "leaf_at (fd_registry st) a = Some e" for a e
    using that unfolding st by (rule start_federation_decided)
  moreover have "members (fd_registry st) = (\<lambda>a. find (\<lambda>sc. sc_alias sc = a) (fc_servers cfg))"
    unfolding st by (rule start_federation_members [OF v])
  ultimately show ?thesis using cfg v by (auto simp: tk start_health_monitor_def)
qed

definition sample_cli :: cli where
  "sample_cli =
     \<lparr>cli_config = ''federation.yaml'', cli_http = True, cli_listen = None, cli_auth_token = Some ''root'',
      cli_auth_token_file = None, cli_tls_cert = None, cli_tls_key = None, cli_log_format = ''text'',
      cli_list_tools = False, cli_validate = False\<rparr>"

definition sample_host :: "nat host" where
  "sample_host =
     \<lparr>ho_env = ok_env\<lparr>read_to_string := \<lambda>p w. Inr []\<rparr>, ho_getenv = (\<lambda>v. None), ho_yaml = one_server_yaml,
      ho_base64 = Inr, ho_random = ''key'', ho_crd_feature = False, ho_kube = sample_kube,
      ho_timed_out = (\<lambda>s. None)\<rparr>"

lemma sample_cli_sel [simp]: "\<not> cli_validate sample_cli" "\<not> cli_list_tools sample_cli"
  by (simp_all add: sample_cli_def)

lemma sample_loads [simp]:
  "load_config sample_host sample_cli 0 =
     Inr \<lparr>fc_federation = default_federation_settings, fc_servers = [sample_server ''k8s'']\<rparr>"
  by (simp add: load_config_def sample_host_def config_from_file_def parse_config_def one_server_yaml_def
      validate_def str_contains_def)

theorem startup_complete_witness:
  "\<exists>st tasks mode w'. main_program sample_host sample_cli 0 = (Serving (st :: nat federation) tasks mode, w')
     \<and> members (fd_registry st) ''k8s'' = Some (sample_server ''k8s'')"
proof -
  have "\<exists>(st :: nat federation) tasks mode w'. main_program sample_host sample_cli 0 = (Serving st tasks mode, w')"
    by (simp add: main_program_def Let_def split_beta) (simp add: sample_cli_def choose_server_def Let_def)
  then obtain st :: "nat federation" and tasks mode w'
    where run: "main_program sample_host sample_cli 0 = (Serving st tasks mode, w')" by blast
  from startup_complete [OF run] show ?thesis using run by auto
qed

text \<open>The exit code tells what happened: the program ends with 0 exactly when it was asked to check the
  file or to list the tools and the file was accepted; otherwise it ends with 1, and then only because
  the file was refused or a certificate and its key were not given together; it never contacts a leaf,
  nor anything else, when it only checks the file or when the file is refused.\<close>

lemma exit_codes:
  "case main_program host cli w of
     (Exit code out err, w') \<Rightarrow>
       (if (cli_validate cli \<or> cli_list_tools cli) \<and> \<not> isl (load_config host cli w) then code = 0 \<and> out \<noteq> []
        else code = 1 \<and> out = [] \<and> err \<noteq> []
             \<and> (isl (load_config host cli w) \<or> (cli_http cli \<and> (cli_tls_cert cli = None) \<noteq> (cli_tls_key cli = None))))
       \<and> (w' = w \<or> (\<not> cli_validate cli \<and> \<not> isl (load_config host cli w)))
   | (Serving st tasks mode, w') \<Rightarrow>
       \<not> cli_validate cli \<and> \<not> cli_list_tools cli \<and> \<not> isl (load_config host cli w)"
  by (cases "load_config host cli w")
    (auto simp: main_program_def validate_only_def list_tools_only_def choose_server_def print_tools_table_def
      Let_def split_beta split: option.split)

text \<open>C38: What the exit code says of a server that cannot listen.  Without TLS, a server whose address
  cannot be bound ends with 101.  With TLS it ends with 101 when the certificate cannot be loaded or the
  address is not a socket address, and otherwise with 0, also when the address cannot be bound.\<close>

theorem listen_failure_exit:
  assumes "cli_http cli" and "load_config host cli w = Inr cfg"
    and "main_program host cli w = (Serving (st :: unit federation) tasks mode, w1)"
    and "os_install_recorder os w1 = (Inr (), w2)"
  shows "exit_status host os cli w =
     (case (cli_tls_cert cli, cli_tls_key cli) of
        (Some cert, Some key) \<Rightarrow>
          (if isl (fst (os_from_pem_file os cert key w2))
              \<or> isl (os_socket_addr os (case cli_listen cli of Some l \<Rightarrow> l | None \<Rightarrow> fs_listen (fc_federation cfg)))
           then 101 else 0)
      | _ \<Rightarrow>
          (if isl (fst (os_bind os (case cli_listen cli of Some l \<Rightarrow> l | None \<Rightarrow> fs_listen (fc_federation cfg)) w2))
           then 101 else 0))"
proof -
  have mode: "choose_server cli (fc_federation cfg) = Some mode"
    using assms(3)
    by (auto simp: main_program_def assms(2) validate_only_def list_tools_only_def Let_def split_beta
        split: option.splits if_splits)
  have "exit_status host os cli w = (case fst (run_server os mode w1) of Returned \<Rightarrow> 0 | Panicked m \<Rightarrow> 101)"
    by (simp add: exit_status_def assms(3))
  with mode assms(1,4) show ?thesis
    by (auto simp: choose_server_def run_server_def run_http_def run_https_def expect_def Let_def
        split: option.splits if_splits sum.splits prod.splits)
qed

definition busy_os :: "nat os" where
  "busy_os =
     \<lparr>os_install_recorder = (\<lambda>w. (Inr (), w)), os_bind = (\<lambda>l w. (Inl ''in use'', w)), os_serve = (\<lambda>a w. (Inr (), w)),
      os_from_pem_file = (\<lambda>c k w. (Inr (), w)), os_socket_addr = Inr,
      os_serve_rustls = (\<lambda>l d a w. (Inl ''in use'', w)), os_stdio = (\<lambda>w. w)\<rparr>"

lemma sample_serves:
  assumes "\<not> cli_validate c" "\<not> cli_list_tools c" "load_config sample_host c 0 = load_config sample_host sample_cli 0"
    and "choose_server c default_federation_settings \<noteq> None"
  shows "\<exists>(st :: unit federation) tasks mode w'. main_program sample_host c 0 = (Serving st tasks mode, w')"
  using assms by (simp add: main_program_def Let_def split_beta) auto

theorem listen_failure_exit_witness:
  "exit_status sample_host busy_os sample_cli 0 = 101
   \<and> exit_status sample_host busy_os (sample_cli\<lparr>cli_tls_cert := Some ''c'', cli_tls_key := Some ''k''\<rparr>) 0 = 0"
proof -
  let ?tls = "sample_cli\<lparr>cli_tls_cert := Some ''c'', cli_tls_key := Some ''k''\<rparr>"
  have load: "load_config sample_host ?tls 0 = load_config sample_host sample_cli 0"
    by (simp add: load_config_def)
  have ch: "choose_server sample_cli default_federation_settings \<noteq> None" "choose_server ?tls default_federation_settings \<noteq> None"
    by (simp_all add: choose_server_def sample_cli_def Let_def)
  have h: "cli_http sample_cli" "cli_http ?tls" "cli_tls_cert sample_cli = None" by (simp_all add: sample_cli_def)
  have rec: "os_install_recorder busy_os w = (Inr (), w)" for w by (simp add: busy_os_def)
  obtain st :: "unit federation" and tasks mode w1 where r1: "main_program sample_host sample_cli 0 = (Serving st tasks mode, w1)"
    using sample_serves [OF _ _ refl ch(1)] by auto
  obtain st' :: "unit federation" and tasks' mode' w1' where r2: "main_program sample_host ?tls 0 = (Serving st' tasks' mode', w1')"
    using sample_serves [OF _ _ load ch(2)] by auto
  from listen_failure_exit [OF h(1) sample_loads r1 rec] listen_failure_exit [OF h(2) load [unfolded sample_loads] r2 rec] h(3)
  show ?thesis by (simp add: busy_os_def)
qed

end
