(* ===== verification/Fed_Stream.thy ===== *)
theory Fed_Stream
  imports Fed_Server
begin

text \<open>
  Notifications from a leaf to the clients: the reader of a leaf's event stream (\<open>leaf_client.rs\<close>), the
  broker (\<open>notifications.rs\<close>) and the stream of \<open>GET /mcp\<close> (\<open>server.rs\<close>) put together over channels
  that behave as the runtime documents them.
\<close>

section \<open>Channels\<close>

text \<open>
  What the runtime documents of \<open>try_send\<close> on a bounded channel: a closed channel and a full one take
  nothing and say so, any other takes the value at its end; no other channel is affected.  \<open>queue\<close> is
  what a channel holds, \<open>is_open\<close> whether its receiver is there.
\<close>

definition channel_laws ::
  "('tx \<Rightarrow> json \<Rightarrow> 'w \<Rightarrow> send_result \<times> 'w) \<Rightarrow> ('w \<Rightarrow> 'tx \<Rightarrow> json list) \<Rightarrow> ('w \<Rightarrow> 'tx \<Rightarrow> bool) \<Rightarrow> bool" where
  "channel_laws try_send queue is_open \<longleftrightarrow>
     (\<forall>tx n w. case try_send tx n w of
        (res, w') \<Rightarrow>
          is_open w' = is_open w
          \<and> (if \<not> is_open w tx then res = SendClosed \<and> queue w' = queue w
             else if length (queue w tx) < CHANNEL_BUFFER
               then res = SendOk \<and> queue w' = (queue w)(tx := queue w tx @ [n])
             else res = SendFull \<and> queue w' = queue w))"

text \<open>Every subscription has a channel of its own.\<close>

definition broker_ok :: "'tx broker \<Rightarrow> bool" where
  "broker_ok b \<longleftrightarrow> hm_wf (subscribers b) \<and> distinct (map snd (subscribers b))"

text \<open>What one offer adds to a queue.\<close>

definition offered :: "json list \<Rightarrow> json list \<Rightarrow> json list" where
  "offered q ns = q @ take (CHANNEL_BUFFER - length q) ns"

lemma offered_Nil [simp]: "offered q [] = q"
  by (simp add: offered_def)

lemma offered_append: "offered (offered q xs) ys = offered q (xs @ ys)"
  by (simp add: offered_def min_def)

lemma offered_one: "offered q [n] = (if length q < CHANNEL_BUFFER then q @ [n] else q)"
  by (simp add: offered_def)

lemma try_send_laws:
  assumes "channel_laws try_send queue is_open" and "try_send tx n w = (res, w')"
  shows "is_open w' = is_open w"
    and "queue w' = (queue w)(tx := if is_open w tx then offered (queue w tx) [n] else queue w tx)"
    and "res = SendClosed \<longleftrightarrow> \<not> is_open w tx"
proof -
  have "case try_send tx n w of (res, w') \<Rightarrow>
      is_open w' = is_open w
      \<and> (if \<not> is_open w tx then res = SendClosed \<and> queue w' = queue w
         else if length (queue w tx) < CHANNEL_BUFFER
           then res = SendOk \<and> queue w' = (queue w)(tx := queue w tx @ [n])
         else res = SendFull \<and> queue w' = queue w)"
    by (rule assms(1) [unfolded channel_laws_def, THEN spec, THEN spec, THEN spec])
  then show "is_open w' = is_open w"
    "queue w' = (queue w)(tx := if is_open w tx then offered (queue w tx) [n] else queue w tx)"
    "res = SendClosed \<longleftrightarrow> \<not> is_open w tx"
    using assms(2) by (auto simp: offered_one split: if_splits)
qed

section \<open>One notification\<close>

lemma publish_scan_channels:
  assumes "channel_laws try_send queue is_open" and "distinct (map snd subs)"
    and "publish_scan try_send n subs d tr w = (d', tr', w')"
  shows "is_open w' = is_open w
    \<and> queue w' = (\<lambda>tx. if tx \<in> snd ` set subs \<and> is_open w tx then offered (queue w tx) [n] else queue w tx)
    \<and> set tr' = set tr \<union> {uid. \<exists>tx. (uid, tx) \<in> set subs \<and> \<not> is_open w tx}"
  using assms(2,3)
proof (induction subs arbitrary: d tr w)
  case (Cons p subs)
  obtain uid tx where p: "p = (uid, tx)" by (cases p)
  obtain res w1 where send: "try_send tx n w = (res, w1)" by (cases "try_send tx n w")
  note laws = try_send_laws [OF assms(1) send]
  obtain d1 tr1 where more: "publish_scan try_send n subs d1 tr1 w1 = (d', tr', w')"
      "set tr1 = set tr \<union> (if is_open w tx then {} else {uid})"
    using Cons.prems(2) laws(3) by (cases res) (auto simp: p send)
  have "tx \<notin> snd ` set subs" "distinct (map snd subs)" using Cons.prems(1) by (auto simp: p)
  with Cons.IH [OF _ more(1)] laws more(2) show ?case by (auto simp: p fun_eq_iff)
qed (auto simp: fun_eq_iff)

lemma broker_ok_remove: "broker_ok b \<Longrightarrow> broker_ok (b\<lparr>subscribers := fold hm_remove ids (subscribers b)\<rparr>)"
proof (induction ids arbitrary: b)
  case (Cons x ids)
  have "broker_ok (b\<lparr>subscribers := hm_remove x (subscribers b)\<rparr>)"
    using Cons.prems by (simp add: broker_ok_def hm_simps) (simp add: hm_remove_def AList.delete_eq distinct_map_filter)
  from Cons.IH [OF this] show ?case by simp
qed simp

lemma publish_channels:
  assumes "channel_laws try_send queue is_open" and "broker_ok b"
    and "publish try_send (\<lambda>b. b) n b w = (d, b', w')"
  shows "is_open w' = is_open w \<and> broker_ok b'
    \<and> queue w' = (\<lambda>tx. if tx \<in> snd ` set (subscribers b) \<and> is_open w tx then offered (queue w tx) [n] else queue w tx)
    \<and> hm_get (subscribers b') = (\<lambda>uid. case hm_get (subscribers b) uid of
          None \<Rightarrow> None | Some tx \<Rightarrow> if is_open w tx then Some tx else None)"
proof -
  obtain tr where scan: "publish_scan try_send n (subscribers b) 0 [] w = (d, tr, w')" and b': "b' = publish_sweep tr b"
    using assms(3) by (auto simp: publish_def split: prod.splits)
  have wf: "hm_wf (subscribers b)" and d: "distinct (map snd (subscribers b))"
    using assms(2) by (simp_all add: broker_ok_def)
  note ch = publish_scan_channels [OF assms(1) d scan]
  have "uid \<in> set tr \<longleftrightarrow> (\<exists>tx. hm_get (subscribers b) uid = Some tx \<and> \<not> is_open w tx)" for uid
    using ch by (simp add: hm_entry_iff [OF wf])
  then have "hm_get (subscribers b') = (\<lambda>uid. case hm_get (subscribers b) uid of
          None \<Rightarrow> None | Some tx \<Rightarrow> if is_open w tx then Some tx else None)"
    by (auto simp: b' fun_eq_iff publish_sweep_get split: option.split)
  moreover have "broker_ok b'" using broker_ok_remove [OF assms(2)] assms(2) by (simp add: b' publish_sweep_def)
  ultimately show ?thesis using ch by blast
qed

section \<open>A stream of notifications\<close>

text \<open>What the listener of a leaf forwards: the payloads that are JSON, each marked with the leaf.\<close>

definition forwarded :: "(string \<Rightarrow> string + json) \<Rightarrow> string \<Rightarrow> string list \<Rightarrow> json list" where
  "forwarded from_str alias ps = concat (map (\<lambda>p. case from_str p of Inl e \<Rightarrow> [] | Inr v \<Rightarrow> [annotate_leaf alias v]) ps)"

text \<open>A subscription and its channel before and after a stream that forwarded \<open>ns\<close>.\<close>

definition fanned_out ::
  "('w \<Rightarrow> 'tx \<Rightarrow> json list) \<Rightarrow> ('w \<Rightarrow> 'tx \<Rightarrow> bool) \<Rightarrow> json list \<Rightarrow> 'tx broker \<times> 'w \<Rightarrow> 'tx broker \<times> 'w \<Rightarrow> string \<Rightarrow> bool" where
  "fanned_out queue is_open ns s s' uid \<longleftrightarrow>
     (case hm_get (subscribers (fst s)) uid of
        None \<Rightarrow> hm_get (subscribers (fst s')) uid = None
      | Some tx \<Rightarrow>
          if is_open (snd s) tx
          then hm_get (subscribers (fst s')) uid = Some tx \<and> queue (snd s') tx = offered (queue (snd s) tx) ns
          else hm_get (subscribers (fst s')) uid = (if ns = [] then Some tx else None))"

lemma dispatch_event_eq:
  "from_str p = Inl e \<Longrightarrow> dispatch_event from_str try_send alias p s = s"
  "from_str p = Inr v \<Longrightarrow> dispatch_event from_str try_send alias p s =
     snd (publish try_send (\<lambda>b. b) (annotate_leaf alias v) (fst s) (snd s))"
  by (simp_all add: dispatch_event_def)

lemma dispatch_events_channels:
  assumes "channel_laws try_send queue is_open" and "broker_ok (fst s)"
    and "fold (dispatch_event from_str try_send alias) ps s = s'"
  shows "is_open (snd s') = is_open (snd s) \<and> broker_ok (fst s') \<and> fanned_out queue is_open (forwarded from_str alias ps) s s' uid"
  using assms(2,3)
proof (induction ps arbitrary: s)
  case Nil
  then show ?case by (auto simp: fanned_out_def forwarded_def split: option.split)
next
  case (Cons p ps)
  show ?case
  proof (cases "from_str p")
    case (Inl e)
    with Cons show ?thesis by (simp add: dispatch_event_eq forwarded_def)
  next
    case (Inr v)
    obtain d b1 w1 where pub: "publish try_send (\<lambda>b. b) (annotate_leaf alias v) (fst s) (snd s) = (d, b1, w1)"
      by (metis surj_pair)
    note one = publish_channels [OF assms(1) Cons.prems(1) pub]
    have "fold (dispatch_event from_str try_send alias) ps (b1, w1) = s'"
      using Cons.prems(2) Inr pub by (simp add: dispatch_event_eq)
    from Cons.IH [OF _ this] one have rest: "is_open (snd s') = is_open (snd s)" "broker_ok (fst s')"
      "fanned_out queue is_open (forwarded from_str alias ps) (b1, w1) s' uid" by auto
    have mem: "tx \<in> snd ` set (subscribers (fst s))" if "hm_get (subscribers (fst s)) uid = Some tx" for tx
      using hm_get_in_set [OF that] by force
    have "fanned_out queue is_open (annotate_leaf alias v # forwarded from_str alias ps) s s' uid"
      using rest(3) one mem
      by (auto simp: fanned_out_def offered_append split: option.splits if_splits)
    with rest Inr show ?thesis by (simp add: forwarded_def)
  qed
qed

lemma forwarded_marked:
  assumes "n \<in> set (forwarded from_str alias ps)" and "json_is_object n"
  shows "json_get_str (json_index n ''params'') ''_leaf'' = Some alias"
proof -
  obtain v where v: "n = annotate_leaf alias v" using assms(1) by (auto simp: forwarded_def split: sum.splits)
  with assms(2) have "json_is_object v" by (cases v) auto
  with v annotate_leaf_spec [of v "alias"] show ?thesis by simp
qed

lemma broker_ok_insert:
  assumes "broker_ok b" and "tx \<notin> snd ` set (subscribers b)"
  shows "broker_ok (b\<lparr>subscribers := hm_insert uid tx (subscribers b)\<rparr>)"
proof -
  have sub: "snd ` set (AList.update uid tx m) \<subseteq> insert tx (snd ` set m)" for m
  proof (induction m)
    case (Cons p m)
    then show ?case by (cases p) auto
  qed simp
  have "distinct (map snd m) \<Longrightarrow> tx \<notin> snd ` set m \<Longrightarrow> distinct (map snd (AList.update uid tx m))" for m
  proof (induction m)
    case (Cons p m)
    with sub [of m] show ?case by (cases p) auto
  qed simp
  with assms show ?thesis by (simp add: broker_ok_def hm_simps) (simp add: hm_insert_def)
qed

lemma run_notification_stream_channels:
  assumes "channel_laws try_send queue is_open" and "broker_ok b"
    and "http_stream env (lc_http c) (stream_request env w c) w = (Inr (status, map Inr chunks), w1)"
    and "status_is_success status" and "list_all payload_ok ps" and "concat chunks = concat (map sse_encode ps)"
    and "run_notification_stream env try_send c (b, w) = (res, (b', w'))"
  shows "res = Inr () \<and> fanned_out queue is_open (forwarded (parse_json env) (lc_alias c) ps) (b, w1) (b', w') uid"
proof -
  have "res = Inr ()" and
    run: "fold (dispatch_event (parse_json env) try_send (lc_alias c)) ps (b, w1) = (b', w')"
    using assms(7) by (simp_all add: run_notification_stream_def assms(3,4) sse_stream_payloads [OF assms(5,6)])
  with dispatch_events_channels [OF assms(1) _ run] assms(2) show ?thesis by simp
qed

text \<open>The subscription \<open>GET /mcp\<close> makes.\<close>

lemma get_mcp_subscribes:
  assumes "get_mcp sv h (st, w) = (reply, (st1, w1))" and "rp_body reply = SseSubscription uid"
    and "sv_channel sv CHANNEL_BUFFER (snd (sv_uuid sv w)) = ((tx, rx), w2)"
  shows "w1 = w2 \<and> fd_notifications st1 = (fd_notifications st)\<lparr>subscribers :=
     hm_insert uid tx (subscribers (fd_notifications st))\<rparr>"
  using assms
  by (auto simp: get_mcp_def subscribe_def Let_def text_reply_def check_origin_def
      split: sum.splits option.splits if_splits prod.splits)

text \<open>C23: A client that opens a stream receives what the leaves announce: the notifications of a leaf reach
  its channel complete and in the order sent, however the bytes were cut up, each marked with the leaf it
  came from whatever the leaf wrote there itself; payloads that are not JSON are left out.  A client that
  does not read loses what comes after the first 64.  At the same time every other open subscription
  gets the same, as far as its channel has room, and those whose client has gone are dropped.\<close>

theorem notifications_end_to_end:
  assumes "channel_laws try_send queue is_open" and "broker_ok (fd_notifications st)"
    and "get_mcp sv h (st, w) = (reply, (st1, w1))" and "rp_body reply = SseSubscription uid"
    and "sv_channel sv CHANNEL_BUFFER (snd (sv_uuid sv w)) = ((tx, rx), w1)"
    and "tx \<notin> snd ` set (subscribers (fd_notifications st))" and "is_open w1 tx" and "queue w1 tx = []"
    and "http_stream env (lc_http c) (stream_request env w1 c) w1 = (Inr (status, map Inr chunks), w2)"
    and "status_is_success status" and "is_open w2 = is_open w1" and "queue w2 = queue w1"
    and "list_all payload_ok ps" and "concat chunks = concat (map sse_encode ps)"
    and "run_notification_stream env try_send c (fd_notifications st1, w1) = (res, (b', w'))"
  shows "res = Inr () \<and> hm_get (subscribers b') uid = Some tx
    \<and> queue w' tx = take 64 (forwarded (parse_json env) (lc_alias c) ps)
    \<and> list_all (\<lambda>n. \<not> json_is_object n \<or> json_get_str (json_index n ''params'') ''_leaf'' = Some (lc_alias c)) (queue w' tx)
    \<and> fanned_out queue is_open (forwarded (parse_json env) (lc_alias c) ps) (fd_notifications st1, w2) (b', w') other"
proof -
  have st1: "fd_notifications st1 = (fd_notifications st)\<lparr>subscribers := hm_insert uid tx (subscribers (fd_notifications st))\<rparr>"
    using get_mcp_subscribes [OF assms(3-5)] by simp
  then have ok: "broker_ok (fd_notifications st1)" using broker_ok_insert [OF assms(2,6)] by simp
  note run = run_notification_stream_channels [OF assms(1) ok assms(9,10,13,14,15)]
  let ?ns = "forwarded (parse_json env) (lc_alias c) ps"
  have "hm_get (subscribers (fd_notifications st1)) uid = Some tx" by (simp add: st1 hm_simps)
  with run [of uid] assms(7,8,11,12) have q: "hm_get (subscribers b') uid = Some tx" "queue w' tx = take 64 ?ns"
    by (simp_all add: fanned_out_def offered_def CHANNEL_BUFFER_def)
  moreover have "\<not> json_is_object n \<or> json_get_str (json_index n ''params'') ''_leaf'' = Some (lc_alias c)"
    if "n \<in> set (queue w' tx)" for n
    using forwarded_marked [of n "parse_json env" "lc_alias c" ps] set_take_subset [of 64 ?ns] that q(2) by auto
  ultimately show ?thesis using run [of other] by (simp add: list_all_iff)
qed

text \<open>One channel, whose content is the state of the world, and a leaf that announces one notification.\<close>

definition one_channel_send :: "unit \<Rightarrow> json \<Rightarrow> json list \<Rightarrow> send_result \<times> json list" where
  "one_channel_send tx n w = (if length w < CHANNEL_BUFFER then (SendOk, w @ [n]) else (SendFull, w))"

definition one_channel_env :: "json list env" where
  "one_channel_env =
     \<lparr>http_send = (\<lambda>cfg rq w. (Inl ''down'', w)),
      http_stream = (\<lambda>cfg rq w. (Inr (200, map Inr [sse_encode ''n'']), w)),
      read_to_string = (\<lambda>path w. Inl ''none''), read_bytes = (\<lambda>path w. Inl ''none''), from_pem = Inr,
      clock = (\<lambda>w. 0), parse_json = (\<lambda>t. Inr (json_obj [(''method'', JString t)])), to_string_pretty = (\<lambda>v. []),
      status_text = (\<lambda>s. []), status_error_text = (\<lambda>u s. [])\<rparr>"

definition one_channel_srv :: "(json list, unit) srv" where
  "one_channel_srv =
     \<lparr>sv_env = one_channel_env, sv_jwt = sv_jwt sample_srv, sv_since_epoch = (\<lambda>w. Some (duration_from_secs 100)), sv_created = (\<lambda>w. 0),
      sv_uuid = (\<lambda>w. (''u'', w)), sv_lower = (\<lambda>t. t), sv_to_string = (\<lambda>v. []), sv_header_ok = (\<lambda>t. True),
      sv_channel = (\<lambda>n w. (((), ()), []))\<rparr>"

definition one_session :: "unit federation" where
  "one_session =
     \<lparr>fd_registry = sample_registry, fd_tool_cache_ttl = 0,
      fd_sessions = snd (create_session (sv_jwt sample_srv) ''u'' 100 0 None (session_manager_new Inr ''key'' 60 None)),
      fd_allowed_origins = [], fd_rate_limiter = rate_limiter_new default_rate_limit_config,
      fd_notifications = broker_new, fd_tasks = []\<rparr>"

lemma one_channel_laws: "channel_laws one_channel_send (\<lambda>w tx. w) (\<lambda>w tx. True)"
  by (auto simp: channel_laws_def one_channel_send_def)

theorem notifications_end_to_end_witness:
  "let h = (\<lambda>k. if k = MCP_SESSION_HEADER then Some ''u'' else None);
       (reply, (st1, w1)) = get_mcp one_channel_srv h (one_session, []);
       (res, (b', w')) = run_notification_stream one_channel_env one_channel_send (sample_client StreamableHttp)
          (fd_notifications st1, w1)
   in rp_body reply = SseSubscription ''u'' \<and> res = Inr () \<and> hm_get (subscribers b') ''u'' = Some ()
      \<and> w' = forwarded (parse_json one_channel_env) ''k8s'' [''n'']"
proof -
  let ?h = "\<lambda>k. if k = MCP_SESSION_HEADER then Some ''u'' else None"
  let ?env = one_channel_env and ?c = "sample_client StreamableHttp"
  obtain reply st1 w1 where g: "get_mcp one_channel_srv ?h (one_session, []) = (reply, (st1, w1))"
    by (metis surj_pair)
  have v: "validate_session (sv_jwt sample_srv) 100 0 ''u'' (fd_sessions one_session)"
    by (simp add: one_session_def sample_srv_def one_token_lib_def validate_session_def decode_claims_def
        create_session_def new_claims_def session_manager_new_def Let_def hm_simps elapsed_def
        duration_from_secs_def as_secs_def)
  have sub: "rp_body reply = SseSubscription ''u''" and w1: "w1 = []"
    using g v by (auto simp: get_mcp_def check_origin_def extract_session_id_def one_channel_srv_def subscribe_def
        one_channel_env_def Let_def one_session_def)
  obtain res b' w' where run: "run_notification_stream ?env one_channel_send ?c (fd_notifications st1, []) = (res, (b', w'))"
    by (metis surj_pair)
  have ch: "sv_channel one_channel_srv CHANNEL_BUFFER (snd (sv_uuid one_channel_srv [])) = (((), ()), [])"
    by (simp add: one_channel_srv_def)
  have hs: "http_stream ?env (lc_http ?c) (stream_request ?env [] ?c) [] = (Inr (200, map Inr [sse_encode ''n'']), [])"
    by (simp add: one_channel_env_def)
  have ok: "list_all payload_ok [''n'']" by (simp add: payload_ok_def LF_def valid_utf8_ascii_Cons)
  have b: "broker_ok (fd_notifications one_session)" "() \<notin> snd ` set (subscribers (fd_notifications one_session))"
    by (simp_all add: one_session_def broker_new_def broker_ok_def hm_simps) (simp_all add: hm_empty_def)
  have al: "lc_alias ?c = ''k8s''" by (simp add: sample_client_def)
  note e2e = notifications_end_to_end [OF one_channel_laws b(1) g [unfolded w1] sub ch b(2) TrueI refl hs _ refl refl ok _ run,
      simplified al]
  have "take 64 (forwarded (parse_json ?env) ''k8s'' [''n'']) = forwarded (parse_json ?env) ''k8s'' [''n'']"
    by (simp add: forwarded_def one_channel_env_def)
  then have "res = Inr () \<and> hm_get (subscribers b') ''u'' = Some () \<and> w' = forwarded (parse_json ?env) ''k8s'' [''n'']"
    using e2e by (simp add: status_is_success_def)
  then show ?thesis using sub by (simp add: g w1 run Let_def)
qed

end
