(* ===== verification/Fed_Observe.thy ===== *)
theory Fed_Observe
  imports Fed_Server Fed_Health
begin

text \<open>
  What the server reports while it works: the metrics it feeds to the recorder and its audit events
  (\<open>server.rs\<close>, \<open>aggregator.rs\<close>, \<open>health.rs\<close>), as functions of the same arguments as the operation that
  emits them.  The recorder adds up what it is fed; trace spans and other log lines are left out.
\<close>

section \<open>Events\<close>

text \<open>A metric with its labels and, for gauges and histograms, the value set or recorded.\<close>

datatype metric =
    Requests_Total string
  | Tool_Calls_Total string string
  | Tool_Call_Errors_Total string string
  | Tool_Call_Duration string string f64
  | Leaf_Tool_Count string f64
  | Leaf_Health string f64

datatype audit =
    Session_Init string
  | Logging_Set_Level string string
  | Tools_List string nat
  | Tool_Call string string string string u64

datatype event = Metric metric | Audit audit

text \<open>The cast \<open>as u64\<close>, which saturates.\<close>

fun f64_as_u64 :: "f64 \<Rightarrow> u64" where
  "f64_as_u64 (Fin q) = (if q < 0 then 0 else if 2 ^ 64 \<le> \<lfloor>q\<rfloor> then - 1 else of_int \<lfloor>q\<rfloor>)"
| "f64_as_u64 PInf = - 1"
| "f64_as_u64 NInf = 0"
| "f64_as_u64 NaN = 0"

section \<open>What each operation reports\<close>

definition tool_count_events :: "registry \<Rightarrow> event list" where
  "tool_count_events r =
     map (\<lambda>a. Metric (Leaf_Tool_Count (sc_alias (le_config (entry r a)))
                        (f64_of_nat (length (cached_tools (entry r a)))))) (healthy_leaves r)"

definition tools_list_events ::
  "('w, 'tx) srv \<Rightarrow> json_rpc_request \<Rightarrow> request_context \<Rightarrow> 'tx federation \<times> 'w \<Rightarrow> event list" where
  "tools_list_events sv request ctx s =
     (let tools = fst (aggregated_tools (fd_tool_cache_ttl (fst s)) (\<lambda>a. clock (sv_env sv) (snd s))
                         (fd_registry (fst s)));
          tools = (if allowed_servers ctx \<noteq> None
                   then filter (\<lambda>t. case json_get_str t ''name'' of
                                      Some name \<Rightarrow> tool_allowed ctx name | None \<Rightarrow> True) tools
                   else tools)
      in tool_count_events (fd_registry (fst s)) @ [Audit (Tools_List (client_label ctx) (length tools))])"

definition tools_call_events ::
  "('w, 'tx) srv \<Rightarrow> json_rpc_request \<Rightarrow> request_context \<Rightarrow> 'tx federation \<times> 'w \<Rightarrow> event list" where
  "tools_call_events sv request ctx s =
     (let tool_name = param_str request ''name'';
          arguments = json_index (rq_params request) ''arguments'';
          alias = (case parse_namespaced_name tool_name of Some (a, _) \<Rightarrow> a | None \<Rightarrow> ''unknown'')
      in if parse_namespaced_name tool_name \<noteq> None \<and> \<not> allows_alias ctx alias then
           [Metric (Tool_Call_Errors_Total tool_name alias),
            Audit (Tool_Call (client_label ctx) alias tool_name ''forbidden'' 0)]
         else
           (let start = clock (sv_env sv) (snd s);
                (result, (r, w)) =
                  route_tool_call (sv_env sv) (sv_lower sv) tool_name arguments (fd_registry (fst s), snd s);
                duration = as_secs_f64 (elapsed (clock (sv_env sv) w) start);
                duration_ms = f64_as_u64 (duration * f64_of_nat 1000);
                status = (case result of Inr v \<Rightarrow> ''success'' | Inl e \<Rightarrow> ''error'')
            in [Metric (Tool_Calls_Total tool_name alias),
                Metric (Tool_Call_Duration tool_name alias duration),
                Audit (Tool_Call (client_label ctx) alias tool_name status duration_ms)]
               @ (case result of Inr v \<Rightarrow> [] | Inl e \<Rightarrow> [Metric (Tool_Call_Errors_Total tool_name alias)])))"

definition logging_events :: "json_rpc_request \<Rightarrow> string option \<Rightarrow> event list" where
  "logging_events request session_id =
     (case json_get_str (rq_params request) ''level'' of
        None \<Rightarrow> []
      | Some level \<Rightarrow>
          if level \<notin> set VALID_LOG_LEVELS then []
          else [Audit (Logging_Set_Level (case session_id of Some sid \<Rightarrow> sid | None \<Rightarrow> ''<none>'') level)])"

definition dispatch_events ::
  "('w, 'tx) srv \<Rightarrow> json_rpc_request \<Rightarrow> string option \<Rightarrow> request_context \<Rightarrow> 'tx federation \<times> 'w
   \<Rightarrow> event list" where
  "dispatch_events sv request session_id ctx s =
     Metric (Requests_Total (rq_method request)) #
       (let m = rq_method request
        in if m = ''initialize'' then [Audit (Session_Init (client_label ctx))]
           else if m = ''tools/list'' then tools_list_events sv request ctx s
           else if m = ''tools/call'' then tools_call_events sv request ctx s
           else if m = ''logging/setLevel'' then logging_events request session_id
           else [])"

text \<open>After a round of a monitor: \<open>r\<close> is the registry then.\<close>

definition monitor_events :: "nat \<Rightarrow> registry \<Rightarrow> event list" where
  "monitor_events a r =
     [Metric (Leaf_Health (sc_alias (le_config (entry r a))) (if health (entry r a) = Healthy then 1 else 0))]"

section \<open>Requests in sequence\<close>

text \<open>What is reported while a client's requests are dispatched one after the other.\<close>

fun observe ::
  "('w, 'tx) srv \<Rightarrow> request_context \<Rightarrow> json_rpc_request list \<Rightarrow> 'tx federation \<times> 'w \<Rightarrow> event list" where
  "observe sv ctx [] s = []"
| "observe sv ctx (request # requests) s =
     dispatch_events sv request None ctx s
     @ observe sv ctx requests (snd (dispatch sv request None ctx s))"

section \<open>Facts: the audit trail\<close>

fun tool_call_audits :: "event list \<Rightarrow> audit list" where
  "tool_call_audits [] = []"
| "tool_call_audits (Audit (Tool_Call c a t st ms) # es) = Tool_Call c a t st ms # tool_call_audits es"
| "tool_call_audits (e # es) = tool_call_audits es"

definition times :: "metric \<Rightarrow> event list \<Rightarrow> nat" where
  "times m es = length (filter (\<lambda>e. e = Metric m) es)"

lemma times_simps [simp]:
  "times m [] = 0" "times m (e # es) = (if e = Metric m then 1 else 0) + times m es"
  "times m (xs @ ys) = times m xs + times m ys"
  by (simp_all add: times_def)

lemma tool_call_audits_append [simp]: "tool_call_audits (xs @ ys) = tool_call_audits xs @ tool_call_audits ys"
  by (induction xs rule: tool_call_audits.induct) simp_all

lemma tool_count_events_quiet [simp]:
  "tool_call_audits (tool_count_events r) = []" "times (Requests_Total m) (tool_count_events r) = 0"
  "times (Tool_Calls_Total t a) (tool_count_events r) = 0" "times (Tool_Call_Errors_Total t a) (tool_count_events r) = 0"
proof -
  have "tool_call_audits (map (\<lambda>a. Metric (f a)) xs) = []" for f :: "nat \<Rightarrow> metric" and xs
    by (induction xs) simp_all
  then show "tool_call_audits (tool_count_events r) = []" by (simp add: tool_count_events_def)
qed (simp_all add: tool_count_events_def times_def filter_empty_conv)

lemma tools_call_observed:
  assumes "rq_method request = ''tools/call''"
  shows "\<exists>alias status ms.
      tool_call_audits (tools_call_events sv request ctx s)
        = [Tool_Call (client_label ctx) alias (param_str request ''name'') status ms]
    \<and> alias = (case parse_namespaced_name (param_str request ''name'') of Some (a, _) \<Rightarrow> a | None \<Rightarrow> ''unknown'')
    \<and> (status = ''success'' \<longleftrightarrow> rs_error (fst (dispatch sv request sid ctx s)) = None)
    \<and> times (Tool_Call_Errors_Total (param_str request ''name'') alias) (tools_call_events sv request ctx s)
        = (if status = ''success'' then 0 else 1)
    \<and> times (Tool_Calls_Total (param_str request ''name'') alias) (tools_call_events sv request ctx s)
        = (if status = ''forbidden'' then 0 else 1)
    \<and> (status = ''forbidden'' \<longleftrightarrow> \<not> tool_allowed ctx (param_str request ''name''))"
proof -
  let ?n = "param_str request ''name''"
  let ?a = "case parse_namespaced_name ?n of Some (a, _) \<Rightarrow> a | None \<Rightarrow> ''unknown''"
  have d: "dispatch sv request sid ctx s = handle_tools_call sv request ctx s" using assms by (simp add: dispatch_def)
  have allowed: "tool_allowed ctx ?n \<longleftrightarrow> \<not> (parse_namespaced_name ?n \<noteq> None \<and> \<not> allows_alias ctx ?a)"
    by (auto simp: tool_allowed_def split: option.split)
  show ?thesis
  proof (cases "tool_allowed ctx ?n")
    case False
    then show ?thesis
      using allowed by (auto simp: d tools_call_events_def handle_tools_call_def Let_def error_response_def)
  next
    case True
    obtain res r w where route: "route_tool_call (sv_env sv) (sv_lower sv) ?n (json_index (rq_params request) ''arguments'')
        (fd_registry (fst s), snd s) = (res, (r, w))" by (metis surj_pair)
    with True allowed show ?thesis
      by (cases res) (auto simp: d tools_call_events_def handle_tools_call_def respond_route_def Let_def
          error_response_def success_response_def)
  qed
qed

lemma tools_list_observed [simp]:
  "tool_call_audits (tools_list_events sv request ctx s) = []"
  "times (Requests_Total m) (tools_list_events sv request ctx s) = 0"
  by (simp_all add: tools_list_events_def Let_def)

lemma logging_observed [simp]:
  "tool_call_audits (logging_events request sid) = []" "times (Requests_Total m) (logging_events request sid) = 0"
  by (simp_all add: logging_events_def split: option.split)

lemma tools_call_not_requests [simp]: "times (Requests_Total m) (tools_call_events sv request ctx s) = 0"
  by (simp add: tools_call_events_def Let_def split_beta split: sum.split)

text \<open>C26: The reports agree with what happened: every request is counted once under its method; every tool
  call, and nothing else, leaves exactly one audit event, with the client, the leaf's alias, the tool and a status that is
  \<open>success\<close> exactly when the reply carries no error and \<open>forbidden\<close> exactly when the client may not use the
  tool; the error counter rises by one exactly when the reply is an error, and the call counter by one
  exactly when the call was not forbidden.\<close>

theorem audit_complete:
  "times (Requests_Total m) (dispatch_events sv request sid ctx s) = (if m = rq_method request then 1 else 0)
   \<and> (if rq_method request = ''tools/call''
      then \<exists>alias status ms.
          tool_call_audits (dispatch_events sv request sid ctx s)
            = [Tool_Call (client_label ctx) alias (param_str request ''name'') status ms]
        \<and> alias = (case parse_namespaced_name (param_str request ''name'') of Some (a, _) \<Rightarrow> a | None \<Rightarrow> ''unknown'')
        \<and> (status = ''success'' \<longleftrightarrow> rs_error (fst (dispatch sv request sid ctx s)) = None)
        \<and> times (Tool_Call_Errors_Total (param_str request ''name'') alias) (dispatch_events sv request sid ctx s)
            = (if status = ''success'' then 0 else 1)
        \<and> times (Tool_Calls_Total (param_str request ''name'') alias) (dispatch_events sv request sid ctx s)
            = (if status = ''forbidden'' then 0 else 1)
        \<and> (status = ''forbidden'' \<longleftrightarrow> \<not> tool_allowed ctx (param_str request ''name''))
      else tool_call_audits (dispatch_events sv request sid ctx s) = [])"
proof (cases "rq_method request = ''tools/call''")
  case True
  with tools_call_observed [OF True, of sv ctx s sid] show ?thesis by (simp add: dispatch_events_def)
qed (simp add: dispatch_events_def Let_def)

section \<open>Facts: the size of the metrics\<close>

text \<open>A request with a method no server knows.\<close>

definition junk_request :: "nat \<Rightarrow> json_rpc_request" where
  "junk_request i = \<lparr>rq_jsonrpc = ''2.0'', rq_id = None, rq_method = CHR ''x'' # replicate i (CHR ''x''), rq_params = JNull\<rparr>"

lemma junk_request_inj: "rq_method (junk_request i) = rq_method (junk_request j) \<longleftrightarrow> i = j"
  by (simp add: junk_request_def replicate_eq_replicate)

lemma junk_dispatch:
  "dispatch sv (junk_request i) sid ctx s = (method_not_found (junk_request i), s)"
  "dispatch_events sv (junk_request i) sid ctx s = [Metric (Requests_Total (rq_method (junk_request i)))]"
  by (simp_all add: dispatch_def dispatch_events_def junk_request_def Let_def)

lemma observe_junk:
  "observe sv ctx (map junk_request is) s = map (\<lambda>i. Metric (Requests_Total (rq_method (junk_request i)))) is"
  by (induction "is") (simp_all add: junk_dispatch)

text \<open>The metrics have no bound: the method of a request becomes a label whatever it is, so any client
  can make the recorder keep as many series as it sends requests, although each of them is answered
  that there is no such method and changes nothing.\<close>

lemma metric_series_unbounded:
  "\<exists>requests. length requests = n
     \<and> card {m. times (Requests_Total m) (observe sv ctx requests s) \<noteq> 0} = n
     \<and> list_all (\<lambda>request. dispatch sv request None ctx s = (method_not_found request, s)) requests"
proof (intro exI [of _ "map junk_request [0..<n]"] conjI)
  have "{m. times (Requests_Total m) (observe sv ctx (map junk_request [0..<n]) s) \<noteq> 0}
      = (\<lambda>i. rq_method (junk_request i)) ` {0..<n}"
    by (auto simp: observe_junk times_def filter_empty_conv)
  moreover have "inj (\<lambda>i. rq_method (junk_request i))" by (simp add: inj_def junk_request_inj)
  ultimately show "card {m. times (Requests_Total m) (observe sv ctx (map junk_request [0..<n]) s) \<noteq> 0} = n"
    using card_image [OF inj_on_subset [of "\<lambda>i. rq_method (junk_request i)" UNIV "{0..<n}"]] by simp
qed (simp_all add: list_all_iff junk_dispatch)

text \<open>The health gauge after a round: one after a success, zero once the threshold is reached.\<close>

lemma monitor_gauge:
  assumes "a < length (leaf_heap (fst s))" and "monitor_round env a s = (ok, s')"
    and "monitor_events a (fst s') = [Metric (Leaf_Health k g)]"
  shows "k = sc_alias (le_config (entry (fst s) a)) \<and> (ok \<longrightarrow> g = 1)
    \<and> (\<not> ok \<and> monitor_threshold (entry (fst s) a) \<le> consecutive_failures (entry (fst s) a) + 1 \<longrightarrow> g = 0)"
  using monitor_round_touches [of a s env] assms(3) monitor_round_vitals [OF assms(1,2)] assms(2)
  by (auto simp: monitor_events_def touches_def)

end
