(* ===== verification/Fed_Tasks.thy ===== *)
theory Fed_Tasks
  imports Fed_Api Fed_Main Fed_Dns Fed_Crd
begin

text \<open>
  The sources of leaves (the registry API, DNS discovery, custom resources, the reload) as tasks that
  overlap: each waits for the lock of the table of leaves several times, and others take their turns
  in between.  A task is a program over the operations of \<open>Registry\<close> that take the lock
  (\<open>src/src/registry.rs\<close>); run without interruption it is the handler modelled in its own theory.
\<close>

section \<open>Programs over the table\<close>

text \<open>
  What a task does next: nothing more; one operation on the table, whose answer the rest may depend
  on; or something outside (a query, a patch, reading a file), which changes the world as the first
  function says.  \<open>Add_Leaf\<close> makes the new entry with the given pool settings, or with those of the
  registry.
\<close>

datatype 'w prog =
    Finished
  | Get_Leaf string "leaf_entry option \<Rightarrow> 'w prog"
  | List_Aliases "string list \<Rightarrow> 'w prog"
  | Add_Leaf string server_config "connection_pool_config option" "'w prog"
  | Remove_Leaf string "'w prog"
  | Outside "'w \<Rightarrow> 'w" "'w \<Rightarrow> 'w prog"

definition new_entry :: "'w env \<Rightarrow> server_config \<Rightarrow> connection_pool_config option \<Rightarrow> registry \<times> 'w \<Rightarrow> leaf_entry" where
  "new_entry env config pool s =
     leaf_new_with_pool env (snd s) config (case pool of None \<Rightarrow> pool_config (fst s) | Some p \<Rightarrow> p)"

fun turn :: "'w env \<Rightarrow> 'w prog \<Rightarrow> registry \<times> 'w \<Rightarrow> 'w prog \<times> registry \<times> 'w" where
  "turn env Finished s = (Finished, s)"
| "turn env (Get_Leaf a f) s = (f (leaf_at (fst s) a), s)"
| "turn env (List_Aliases f) s = (f (aliases (fst s)), s)"
| "turn env (Add_Leaf a config pool p) s = (p, (put_leaf a (new_entry env config pool s) (fst s), snd s))"
| "turn env (Remove_Leaf a p) s = (p, (del_leaf a (fst s), snd s))"
| "turn env (Outside change f) s = (f (snd s), (fst s, change (snd s)))"

text \<open>The whole program without interruption.\<close>

primrec alone :: "'w prog \<Rightarrow> 'w env \<Rightarrow> registry \<times> 'w \<Rightarrow> registry \<times> 'w" where
  "alone Finished env s = s"
| "alone (Get_Leaf a f) env s = alone (f (leaf_at (fst s) a)) env s"
| "alone (List_Aliases f) env s = alone (f (aliases (fst s))) env s"
| "alone (Add_Leaf a config pool p) env s = alone p env (put_leaf a (new_entry env config pool s) (fst s), snd s)"
| "alone (Remove_Leaf a p) env s = alone p env (del_leaf a (fst s), snd s)"
| "alone (Outside change f) env s = alone (f (snd s)) env (fst s, change (snd s))"

section \<open>The sources as programs\<close>

text \<open>The loops that end a poll and a reload.\<close>

primrec remove_all :: "string list \<Rightarrow> 'w prog" where
  "remove_all [] = Finished"
| "remove_all (a # as) = Remove_Leaf a (remove_all as)"

primrec add_discovered :: "dns_discovery_config \<Rightarrow> (string \<times> srv_record) list \<Rightarrow> 'w prog \<Rightarrow> 'w prog" where
  "add_discovered config [] p = p"
| "add_discovered config (d # ds) p =
     Add_Leaf (fst d) (dns_config config (fst d) (snd d)) None (add_discovered config ds p)"

definition dns_task :: "'w dig \<Rightarrow> dns_discovery_config \<Rightarrow> 'w prog" where
  "dns_task dig config =
     Outside (\<lambda>w. snd (query_srv dig (srv_name config) w)) (\<lambda>w.
       case fst (query_srv dig (srv_name config) w) of
         Inl e \<Rightarrow> Finished
       | Inr records \<Rightarrow>
           List_Aliases (\<lambda>as.
             let want = desired records;
                 existing = filter (\<lambda>a. prefix DNS_ALIAS_PREFIX a) as;
                 added = filter (\<lambda>p. fst p \<notin> set existing) want;
                 gone = filter (\<lambda>a. a \<notin> set (hm_keys want)) existing
             in add_discovered config added (remove_all gone)))"

primrec reload_servers :: "server_config list \<Rightarrow> 'w prog \<Rightarrow> 'w prog" where
  "reload_servers [] p = p"
| "reload_servers (server # servers) p =
     Get_Leaf (sc_alias server) (\<lambda>current.
       let (is_new, changed) = (case current of None \<Rightarrow> (True, False) | Some e \<Rightarrow> (False, \<not> same_settings e server))
       in if is_new \<or> changed then Add_Leaf (sc_alias server) server None (reload_servers servers p)
          else reload_servers servers p)"

definition reload_task ::
  "'w env \<Rightarrow> (string \<Rightarrow> string option) \<Rightarrow> (string \<Rightarrow> string + federation_config) \<Rightarrow> string \<Rightarrow> 'w prog" where
  "reload_task env getenv yaml path =
     Outside (\<lambda>w. w) (\<lambda>w.
       case config_from_file (\<lambda>p. read_to_string env p w) getenv yaml path of
         Inl e \<Rightarrow> Finished
       | Inr cfg \<Rightarrow>
           List_Aliases (\<lambda>existing.
             reload_servers (fc_servers cfg)
               (remove_all (filter (\<lambda>a. a \<notin> set (map sc_alias (fc_servers cfg))) existing))))"

definition crd_task :: "'w kube \<Rightarrow> connection_pool_config \<Rightarrow> mcp_server \<Rightarrow> 'w prog" where
  "crd_task kube pool obj =
     (let namespace = (case mo_namespace obj of Some n \<Rightarrow> n | None \<Rightarrow> []);
          name = mo_name obj;
          alias = crd_alias namespace name;
          patch = (\<lambda>finalizers. Outside (\<lambda>w. snd (kube_patch kube namespace name (finalizers_patch finalizers) w))
                    (\<lambda>w. Finished))
      in if mo_deleting obj then
           (if FINALIZER \<in> set (mo_finalizers obj)
            then Remove_Leaf alias (patch (filter (\<lambda>f. f \<noteq> FINALIZER) (mo_finalizers obj))) else Finished)
         else if FINALIZER \<notin> set (mo_finalizers obj) then patch (mo_finalizers obj @ [FINALIZER])
         else (case parse_transport (ms_transport (mo_spec obj)) of
                 Inl e \<Rightarrow> Finished
               | Inr transport \<Rightarrow> Add_Leaf alias (crd_config alias transport (mo_spec obj)) (Some pool) Finished))"

definition deregister_task :: "string \<Rightarrow> 'w prog" where
  "deregister_task alias = Remove_Leaf alias Finished"

text \<open>Without interruption each program is its handler.\<close>

lemma pool_config_put [simp]: "pool_config (put_leaf k e r) = pool_config r"
  by (simp add: put_leaf_def add_leaf_def)

lemma alone_remove_all: "alone (remove_all as) env s = (fold del_leaf as (fst s), snd s)"
  by (induction as arbitrary: s) simp_all

lemma alone_add_discovered:
  "alone (add_discovered config ds p) env s =
     alone p env (fold (\<lambda>d. put_leaf (fst d) (dns_entry env (snd s) (pool_config (fst s)) config d)) ds (fst s), snd s)"
proof (induction ds arbitrary: s)
  case (Cons d ds)
  then show ?case by (simp add: new_entry_def dns_entry_def)
qed simp

lemma alone_dns_task: "alone (dns_task dig config) env s = snd (poll_once env dig config s)"
  by (simp add: dns_task_def poll_once_def reconcile_def alone_add_discovered alone_remove_all Let_def split_beta
      split: sum.split prod.split)

lemma reload_server_leaf_at:
  "reload_server env w pool server r =
     (case leaf_at r (sc_alias server) of
        None \<Rightarrow> put_leaf (sc_alias server) (leaf_new_with_pool env w server pool) r
      | Some e \<Rightarrow> if same_settings e server then r
                  else put_leaf (sc_alias server) (leaf_new_with_pool env w server pool) r)"
  by (simp add: reload_server_def leaf_at_def split: option.split)

lemma alone_reload_servers:
  "alone (reload_servers servers p) env s =
     alone p env (fold (reload_server env (snd s) (pool_config (fst s))) servers (fst s), snd s)"
proof (induction servers arbitrary: s)
  case (Cons server servers)
  then show ?case
    by (cases "leaf_at (fst s) (sc_alias server)")
      (simp_all add: new_entry_def reload_server_leaf_at [of env "snd s" "pool_config (fst s)" server])
qed simp

lemma alone_reload_task:
  "alone (reload_task env getenv yaml path) env s = on_sighup env getenv yaml path s"
  by (simp add: reload_task_def on_sighup_def reload_config_def alone_reload_servers alone_remove_all Let_def
      split: sum.split)

lemma alone_crd_task: "alone (crd_task kube pool obj) env s = snd (snd (crd_reconcile env kube pool obj s))"
  by (simp add: crd_task_def crd_reconcile_def new_entry_def del_leaf_def put_leaf_def Let_def split_beta
      split: sum.split prod.split)

lemma alone_deregister_task: "alone (deregister_task k) env s = (snd (deregister_server k (fst s)), snd s)"
  by (simp add: deregister_task_def deregister_server_leaf_at)

section \<open>Jobs that overlap\<close>

text \<open>What a source is asked to do, and what it needs from outside to do it.\<close>

datatype job =
    Register register_request
  | Deregister string
  | Discover dns_discovery_config
  | Reconcile connection_pool_config mcp_server
  | Reload string

record 'w outside =
  ou_dig :: "'w dig"
  ou_kube :: "'w kube"
  ou_getenv :: "string \<Rightarrow> string option"
  ou_yaml :: "string \<Rightarrow> string + federation_config"

datatype 'w task = Registering reg_task | Running "'w prog"

fun task_turn :: "'w env \<Rightarrow> 'w task \<Rightarrow> registry \<times> 'w \<Rightarrow> 'w task \<times> registry \<times> 'w" where
  "task_turn env (Registering t) s = (let (t', s') = reg_task_turn env t s in (Registering t', s'))"
| "task_turn env (Running p) s = (let (p', s') = turn env p s in (Running p', s'))"

fun task_done :: "'w task \<Rightarrow> bool" where
  "task_done (Registering t) \<longleftrightarrow> (case t of Reg_Done reply \<Rightarrow> True | _ \<Rightarrow> False)"
| "task_done (Running p) \<longleftrightarrow> (case p of Finished \<Rightarrow> True | _ \<Rightarrow> False)"

fun start_job :: "'w env \<Rightarrow> 'w outside \<Rightarrow> job \<Rightarrow> 'w task" where
  "start_job env ou (Register req) = Registering (Reg_Check req)"
| "start_job env ou (Deregister k) = Running (deregister_task k)"
| "start_job env ou (Discover config) = Running (dns_task (ou_dig ou) config)"
| "start_job env ou (Reconcile pool obj) = Running (crd_task (ou_kube ou) pool obj)"
| "start_job env ou (Reload path) = Running (reload_task env (ou_getenv ou) (ou_yaml ou) path)"

text \<open>The handler of a job, as its own theory has it.\<close>

fun handler :: "'w env \<Rightarrow> 'w outside \<Rightarrow> job \<Rightarrow> registry \<times> 'w \<Rightarrow> registry \<times> 'w" where
  "handler env ou (Register req) s = snd (snd (register_server env req s))"
| "handler env ou (Deregister k) s = (snd (deregister_server k (fst s)), snd s)"
| "handler env ou (Discover config) s = snd (poll_once env (ou_dig ou) config s)"
| "handler env ou (Reconcile pool obj) s = snd (snd (crd_reconcile env (ou_kube ou) pool obj s))"
| "handler env ou (Reload path) s = on_sighup env (ou_getenv ou) (ou_yaml ou) path s"

text \<open>
  One turn of one of the tasks, or work on the entries and a change of the outside world, as calls,
  monitors, refreshes and warm-ups bring them about.
\<close>

definition job_other :: "registry \<times> 'w \<Rightarrow> registry \<times> 'w \<Rightarrow> bool" where
  "job_other s s' \<longleftrightarrow> evolves (fst s) (fst s')"

abbreviation job_step ::
  "'w env \<Rightarrow> 'w task list \<times> registry \<times> 'w \<Rightarrow> 'w task list \<times> registry \<times> 'w \<Rightarrow> bool" where
  "job_step env \<equiv> pool_step (task_turn env) job_other"

text \<open>The aliases a job may touch; a reload may touch all.\<close>

fun may_touch :: "job \<Rightarrow> string \<Rightarrow> bool" where
  "may_touch (Register req) k \<longleftrightarrow> k = rr_alias req"
| "may_touch (Deregister a) k \<longleftrightarrow> k = a"
| "may_touch (Discover config) k \<longleftrightarrow> prefix DNS_ALIAS_PREFIX k"
| "may_touch (Reconcile pool obj) k \<longleftrightarrow> k = owned_alias obj"
| "may_touch (Reload path) k \<longleftrightarrow> True"

section \<open>Facts: what a program leaves alone\<close>

text \<open>Every entry a program adds is for the alias it is added under, whatever it was told before.\<close>

primrec well_named :: "'w prog \<Rightarrow> bool" where
  "well_named Finished \<longleftrightarrow> True"
| "well_named (Get_Leaf a f) \<longleftrightarrow> (\<forall>x. well_named (f x))"
| "well_named (List_Aliases f) \<longleftrightarrow> (\<forall>as. well_named (f as))"
| "well_named (Add_Leaf a config pool p) \<longleftrightarrow> sc_alias config = a \<and> well_named p"
| "well_named (Remove_Leaf a p) \<longleftrightarrow> well_named p"
| "well_named (Outside change f) \<longleftrightarrow> (\<forall>w. well_named (f w))"

text \<open>It neither adds nor removes the alias.\<close>

primrec avoids :: "'w prog \<Rightarrow> string \<Rightarrow> bool" where
  "avoids Finished k \<longleftrightarrow> True"
| "avoids (Get_Leaf a f) k \<longleftrightarrow> (\<forall>x. avoids (f x) k)"
| "avoids (List_Aliases f) k \<longleftrightarrow> (\<forall>as. avoids (f as) k)"
| "avoids (Add_Leaf a config pool p) k \<longleftrightarrow> a \<noteq> k \<and> avoids p k"
| "avoids (Remove_Leaf a p) k \<longleftrightarrow> a \<noteq> k \<and> avoids p k"
| "avoids (Outside change f) k \<longleftrightarrow> (\<forall>w. avoids (f w) k)"

lemma new_entry_ok: "entry_ok (new_entry env config pool s)" "le_config (new_entry env config pool s) = config"
  by (simp_all add: new_entry_def)

lemma turn_well_named:
  assumes "well_named p" "registry_ok (fst s)" "turn env p s = (p', s')"
  shows "well_named p' \<and> registry_ok (fst s')"
  using assms by (cases p) (auto simp: rt.ok_put rt.ok_del new_entry_ok)

lemma get_leaf_put_del [simp]:
  "k \<noteq> a \<Longrightarrow> get_leaf k (put_leaf a e r) = get_leaf k r" "k \<noteq> a \<Longrightarrow> get_leaf k (del_leaf a r) = get_leaf k r"
  by (simp_all add: get_leaf_def put_leaf_def add_leaf_def del_leaf_def remove_leaf_def hm_simps)

lemma turn_avoids:
  assumes "avoids p k" "registry_ok (fst s)" "turn env p s = (p', s')"
  shows "avoids p' k \<and> get_leaf k (fst s') = get_leaf k (fst s) \<and> leaf_at (fst s') k = leaf_at (fst s) k"
  using assms by (cases p) (auto simp: rt.lookup_put rt.lookup_del)

lemma well_named_programs [simp]:
  "well_named (remove_all as)"
  "well_named (add_discovered config ds p) \<longleftrightarrow> well_named p"
  "well_named (reload_servers servers p) \<longleftrightarrow> well_named p"
proof -
  show "well_named (remove_all as)" by (induction as) simp_all
  show "well_named (add_discovered config ds p) \<longleftrightarrow> well_named p" by (induction ds) (simp_all add: dns_config_def)
  show "well_named (reload_servers servers p) \<longleftrightarrow> well_named p" by (induction servers) (auto split: option.split)
qed

lemma well_named_sources:
  "well_named (dns_task dig config)" "well_named (reload_task env getenv yaml path)"
  "well_named (crd_task kube pool obj)" "well_named (deregister_task k)"
  by (auto simp: dns_task_def reload_task_def crd_task_def deregister_task_def Let_def split: sum.split)

lemma avoids_programs [simp]:
  "avoids (remove_all as) k \<longleftrightarrow> k \<notin> set as"
  "avoids (add_discovered config ds p) k \<longleftrightarrow> k \<notin> fst ` set ds \<and> avoids p k"
proof -
  show "avoids (remove_all as) k \<longleftrightarrow> k \<notin> set as" by (induction as) auto
  show "avoids (add_discovered config ds p) k \<longleftrightarrow> k \<notin> fst ` set ds \<and> avoids p k" by (induction ds) auto
qed

lemma desired_entry_prefix: "d \<in> set (desired records) \<Longrightarrow> prefix DNS_ALIAS_PREFIX (fst d)"
  using desired_prefix hm_entry_iff [OF desired_wf] by (metis prod.collapse)

lemma avoids_sources:
  "\<not> prefix DNS_ALIAS_PREFIX k \<Longrightarrow> avoids (dns_task dig config) k"
  "owned_alias obj \<noteq> k \<Longrightarrow> avoids (crd_task kube pool obj) k"
  "a \<noteq> k \<Longrightarrow> avoids (deregister_task a) k"
  by (auto simp: dns_task_def crd_task_def deregister_task_def owned_alias_def Let_def split: sum.split
      dest: desired_entry_prefix)

text \<open>The same for tasks.\<close>

fun request_of :: "reg_task \<Rightarrow> register_request option" where
  "request_of (Reg_Check req) = Some req"
| "request_of (Reg_Insert req) = Some req"
| "request_of (Reg_Reply req) = Some req"
| "request_of (Reg_Done reply) = None"

fun task_avoids :: "'w task \<Rightarrow> string \<Rightarrow> bool" where
  "task_avoids (Registering t) k \<longleftrightarrow> (case request_of t of None \<Rightarrow> True | Some req \<Rightarrow> rr_alias req \<noteq> k)"
| "task_avoids (Running p) k \<longleftrightarrow> avoids p k"

fun task_well_named :: "'w task \<Rightarrow> bool" where
  "task_well_named (Registering t) \<longleftrightarrow> True"
| "task_well_named (Running p) \<longleftrightarrow> well_named p"

lemma start_job_avoids: "\<not> may_touch j k \<Longrightarrow> task_avoids (start_job env ou j) k"
  by (cases j) (auto simp: avoids_sources)

lemma start_job_well_named: "task_well_named (start_job env ou j)"
  by (cases j) (simp_all add: well_named_sources)

lemma task_turn_well_named:
  assumes "task_well_named t" "registry_ok (fst s)" "task_turn env t s = (t', s')"
  shows "task_well_named t' \<and> registry_ok (fst s')"
proof (cases t)
  case (Registering u)
  with assms show ?thesis
    by (cases u) (auto simp: split_beta register_insert_facts split: option.splits)
next
  case (Running p)
  with assms turn_well_named [of p s env] show ?thesis by (auto simp: split_beta prod_eq_iff)
qed

lemma task_turn_avoids:
  assumes "task_avoids t k" "registry_ok (fst s)" "task_turn env t s = (t', s')"
  shows "task_avoids t' k \<and> get_leaf k (fst s') = get_leaf k (fst s) \<and> leaf_at (fst s') k = leaf_at (fst s) k"
proof (cases t)
  case (Registering u)
  with assms show ?thesis
    by (cases u) (auto simp: split_beta register_insert_put rt.lookup_put split: option.splits)
next
  case (Running p)
  with assms turn_avoids [of p k s env] show ?thesis by (auto simp: split_beta prod_eq_iff)
qed

section \<open>Facts: what a program does to one alias\<close>

text \<open>
  The weakest precondition of a program at one alias while nobody else touches it: \<open>v\<close> are the settings
  there now.  From here on they are always \<open>v0\<close> or \<open>v1\<close>, and \<open>v1\<close> when the program has finished, whatever
  the program is told about the other aliases.
\<close>

primrec settles ::
  "'w prog \<Rightarrow> string \<Rightarrow> server_config option \<Rightarrow> server_config option \<Rightarrow> server_config option \<Rightarrow> bool" where
  "settles Finished k v0 v1 v \<longleftrightarrow> v = v1"
| "settles (Get_Leaf a f) k v0 v1 v \<longleftrightarrow> v \<in> {v0, v1} \<and> (\<forall>x. (a = k \<longrightarrow> map_option le_config x = v) \<longrightarrow> settles (f x) k v0 v1 v)"
| "settles (List_Aliases f) k v0 v1 v \<longleftrightarrow> v \<in> {v0, v1} \<and> (\<forall>as. (k \<in> set as \<longleftrightarrow> v \<noteq> None) \<longrightarrow> settles (f as) k v0 v1 v)"
| "settles (Add_Leaf a config pool p) k v0 v1 v \<longleftrightarrow> v \<in> {v0, v1} \<and> settles p k v0 v1 (if a = k then Some config else v)"
| "settles (Remove_Leaf a p) k v0 v1 v \<longleftrightarrow> v \<in> {v0, v1} \<and> settles p k v0 v1 (if a = k then None else v)"
| "settles (Outside change f) k v0 v1 v \<longleftrightarrow> v \<in> {v0, v1} \<and> (\<forall>w. settles (f w) k v0 v1 v)"

lemma settles_now: "settles p k v0 v1 v \<Longrightarrow> v = v0 \<or> v = v1"
  by (cases p) auto

lemma turn_settles:
  assumes "settles p k v0 v1 (members (fst s) k)" "registry_ok (fst s)" "turn env p s = (p', s')"
  shows "settles p' k v0 v1 (members (fst s') k)"
  using assms
  by (cases p) (auto simp: members_def rt.lookup_put rt.lookup_del new_entry_ok aliases_leaf_at split: if_splits)

lemma settles_remove_all:
  "settles (remove_all as) k v0 v1 v \<longleftrightarrow> (if k \<in> set as then v \<in> {v0, v1} \<and> v1 = None else v = v1)"
  by (induction as arbitrary: v) auto

lemma settles_add_discovered:
  assumes "distinct (map fst ds)" "v \<in> {v0, v1}"
    and "settles p k v0 v1 (case map_of ds k of None \<Rightarrow> v | Some record \<Rightarrow> Some (dns_config config k record))"
  shows "settles (add_discovered config ds p) k v0 v1 v"
  using assms
proof (induction ds arbitrary: v)
  case (Cons d ds)
  show ?case
  proof (cases "fst d = k")
    case True
    with Cons.prems(1) have "map_of ds k = None" by (auto simp: map_of_eq_None_iff)
    moreover from this True Cons.prems have "Some (dns_config config k (snd d)) \<in> {v0, v1}"
      using settles_now [OF Cons.prems(3)] by auto
    ultimately show ?thesis using Cons True by auto
  qed (use Cons in auto)
qed simp

text \<open>What the loop over the servers of a file makes of the settings at an alias.\<close>

definition reloaded :: "server_config list \<Rightarrow> string \<Rightarrow> server_config option \<Rightarrow> server_config option" where
  "reloaded servers k v =
     (case find (\<lambda>x. sc_alias x = k) servers of
        None \<Rightarrow> v
      | Some server \<Rightarrow> if map_option connection_settings v = Some (connection_settings server) then v else Some server)"

lemma settles_reload_servers:
  assumes "distinct (map sc_alias servers)" "v \<in> {v0, v1}"
    and "settles p k v0 v1 (reloaded servers k v)"
  shows "settles (reload_servers servers p) k v0 v1 v"
  using assms
proof (induction servers arbitrary: v)
  case (Cons server servers)
  show ?case
  proof (cases "sc_alias server = k")
    case True
    with Cons.prems(1) have none: "find (\<lambda>x. sc_alias x = k) servers = None" by (auto simp: find_None_iff) (metis imageI)
    then have rest: "settles (reload_servers servers p) k v0 v1 (reloaded (server # servers) k v)"
      using Cons settles_now [OF Cons.prems(3)] by (auto simp: reloaded_def)
    show ?thesis using rest True Cons.prems(2)
      by (auto simp: reloaded_def same_settings_iff split: option.splits if_splits)
  next
    case False
    then have "settles (reload_servers servers p) k v0 v1 v" using Cons by (auto simp: reloaded_def)
    with False Cons.prems(2) show ?thesis by (auto split: option.splits)
  qed
qed (simp add: reloaded_def)

lemma map_of_filter_keys: "map_of (filter (\<lambda>p. fst p \<notin> S) m) k = (if k \<in> S then None else map_of m k)"
  by (induction m) auto

lemma dns_task_settles:
  assumes "registry_ok r" and "\<And>w'. fst (query_srv dig (srv_name config) w') = fst (query_srv dig (srv_name config) w)"
  shows "settles (dns_task dig config) k (members r k)
    (members (fst (snd (poll_once env dig config (r, w)))) k) (members r k)"
proof (cases "fst (query_srv dig (srv_name config) w)")
  case (Inl e)
  with assms(2) show ?thesis by (simp add: dns_task_def poll_once_def split_beta split: prod.split sum.split)
next
  case (Inr records)
  let ?v = "members r k" and ?want = "desired records"
  obtain w1 where q: "query_srv dig (srv_name config) w = (Inr records, w1)" using Inr by (metis prod.collapse)
  obtain r' w' where run: "reconcile env config records (r, w1) = (r', w')" by (metis surj_pair)
  have want: "map_of ?want k = find (\<lambda>x. sanitize_alias (sr_target x) = k) (rev records)"
    using desired_get [of records k] by (simp add: hm_get_def)
  have pre: "prefix DNS_ALIAS_PREFIX k" if "map_of ?want k \<noteq> None"
    using that desired_prefix [of records k] by (auto simp: hm_get_def)
  have v1: "members r' k = (if prefix DNS_ALIAS_PREFIX k
      then case map_of ?want k of None \<Rightarrow> None | Some x \<Rightarrow> (case ?v of Some c \<Rightarrow> Some c | None \<Rightarrow> Some (dns_config config k x))
      else ?v)"
    using reconcile_at [OF assms(1) run, of k] by (auto simp: members_def want split: option.split)
  have keys: "set (hm_keys ?want) = {a. map_of ?want a \<noteq> None}" by (auto simp: hm.set_keys hm_get_def)
  have "settles (add_discovered config (filter (\<lambda>p. fst p \<notin> set (filter (prefix DNS_ALIAS_PREFIX) as)) ?want)
      (remove_all (filter (\<lambda>a. a \<notin> set (hm_keys ?want)) (filter (prefix DNS_ALIAS_PREFIX) as)))) k ?v (members r' k) ?v"
    if as: "k \<in> set as \<longleftrightarrow> ?v \<noteq> None" for as
  proof (rule settles_add_discovered)
    let ?ex = "set (filter (prefix DNS_ALIAS_PREFIX) as)"
    show "distinct (map fst (filter (\<lambda>p. fst p \<notin> ?ex) ?want))"
      using desired_wf [of records] by (simp add: hm_wf_def distinct_map_filter)
    have ex: "k \<in> ?ex \<longleftrightarrow> ?v \<noteq> None \<and> prefix DNS_ALIAS_PREFIX k" using as by auto
    have gone: "k \<in> set (filter (\<lambda>a. a \<notin> set (hm_keys ?want)) (filter (prefix DNS_ALIAS_PREFIX) as)) \<longleftrightarrow>
        ?v \<noteq> None \<and> prefix DNS_ALIAS_PREFIX k \<and> map_of ?want k = None"
      using as keys by auto
    show "settles (remove_all (filter (\<lambda>a. a \<notin> set (hm_keys ?want)) (filter (prefix DNS_ALIAS_PREFIX) as))) k ?v
        (members r' k) (case map_of (filter (\<lambda>p. fst p \<notin> ?ex) ?want) k of
           None \<Rightarrow> ?v | Some record \<Rightarrow> Some (dns_config config k record))"
      unfolding settles_remove_all gone v1 map_of_filter_keys ex using pre by (auto split: option.splits)
  qed simp
  with Inr assms(2) show ?thesis by (simp add: dns_task_def poll_once_def q run Let_def) blast
qed

lemma reload_task_settles:
  assumes "registry_ok r"
    and "\<And>w'. config_from_file (\<lambda>p. read_to_string env p w') getenv yaml path = config_from_file (\<lambda>p. read_to_string env p w) getenv yaml path"
  shows "settles (reload_task env getenv yaml path) k (members r k)
    (members (fst (on_sighup env getenv yaml path (r, w))) k) (members r k)"
proof (cases "config_from_file (\<lambda>p. read_to_string env p w) getenv yaml path")
  case (Inl e)
  with assms(2) show ?thesis by (simp add: reload_task_def on_sighup_def reload_config_def)
next
  case (Inr cfg)
  let ?v = "members r k" and ?servers = "fc_servers cfg"
  have d: "distinct (map sc_alias ?servers)"
    using validate_Inr [OF config_from_file_Inr [OF Inr]] by (simp add: servers_ok_def)
  have v1: "members (fst (on_sighup env getenv yaml path (r, w))) k =
      (if find (\<lambda>x. sc_alias x = k) ?servers = None then None else reloaded ?servers k ?v)"
    using reload_config_at [OF assms(1) refl, of env w "\<lambda>p. read_to_string env p w" getenv yaml path k] Inr
    by (auto simp: on_sighup_def members_def reloaded_def split: option.splits)
  have "settles (reload_servers ?servers (remove_all (filter (\<lambda>a. a \<notin> set (map sc_alias ?servers)) as))) k ?v
      (members (fst (on_sighup env getenv yaml path (r, w))) k) ?v" if as: "k \<in> set as \<longleftrightarrow> ?v \<noteq> None" for as
  proof (rule settles_reload_servers [OF d])
    have gone: "k \<in> set (filter (\<lambda>a. a \<notin> set (map sc_alias ?servers)) as) \<longleftrightarrow>
        ?v \<noteq> None \<and> find (\<lambda>x. sc_alias x = k) ?servers = None"
      using as by (auto simp: find_None_iff)
    show "settles (remove_all (filter (\<lambda>a. a \<notin> set (map sc_alias ?servers)) as)) k ?v
      (members (fst (on_sighup env getenv yaml path (r, w))) k) (reloaded ?servers k ?v)"
      unfolding settles_remove_all gone v1 by (simp add: reloaded_def split: option.split)
  qed simp
  with Inr assms(2) show ?thesis by (simp add: reload_task_def) blast
qed

lemma crd_task_settles:
  assumes "registry_ok r"
  shows "settles (crd_task kube pool obj) k (members r k)
    (members (fst (snd (snd (crd_reconcile env kube pool obj (r, w))))) k) (members r k)"
proof -
  obtain res sp r' w' where run: "crd_reconcile env kube pool obj (r, w) = (res, sp, (r', w'))" by (metis surj_pair)
  have r': "fst (snd (snd (crd_reconcile env kube pool obj (r, w)))) = r'" by (simp add: run)
  from run show ?thesis
    unfolding r' by (cases rule: crd_reconcile_registry)
      (use assms in \<open>auto simp: crd_task_def members_def rt.lookup_put rt.lookup_del owned_alias_def Let_def\<close>)
qed

section \<open>Facts: jobs that overlap\<close>

fun reg_settles ::
  "reg_task \<Rightarrow> string \<Rightarrow> server_config option \<Rightarrow> server_config option \<Rightarrow> server_config option \<Rightarrow> bool" where
  "reg_settles (Reg_Check req) k v0 v1 v \<longleftrightarrow>
     v = v0 \<and> v1 = (if k = rr_alias req \<and> alias_ok k \<and> rr_url req \<noteq> [] \<and> v0 = None then Some (register_config req) else v0)"
| "reg_settles (Reg_Insert req) k v0 v1 v \<longleftrightarrow> v = v0 \<and> v1 = (if k = rr_alias req then Some (register_config req) else v0)"
| "reg_settles (Reg_Reply req) k v0 v1 v \<longleftrightarrow> v = v1"
| "reg_settles (Reg_Done reply) k v0 v1 v \<longleftrightarrow> v = v1"

fun task_settles ::
  "'w task \<Rightarrow> string \<Rightarrow> server_config option \<Rightarrow> server_config option \<Rightarrow> server_config option \<Rightarrow> bool" where
  "task_settles (Registering t) k v0 v1 v \<longleftrightarrow> reg_settles t k v0 v1 v"
| "task_settles (Running p) k v0 v1 v \<longleftrightarrow> settles p k v0 v1 v"

lemma task_settles_now:
  "task_settles t k v0 v1 v \<Longrightarrow> (v = v0 \<or> v = v1) \<and> (task_done t \<longrightarrow> v = v1)"
proof (cases t)
  case (Registering u)
  then show "task_settles t k v0 v1 v \<Longrightarrow> ?thesis" by (cases u) auto
next
  case (Running p)
  then show "task_settles t k v0 v1 v \<Longrightarrow> ?thesis" using settles_now [of p k v0 v1 v] by (cases p) auto
qed

lemma task_turn_settles:
  assumes "task_settles t k v0 v1 (members (fst s) k)" "registry_ok (fst s)" "task_turn env t s = (t', s')"
  shows "task_settles t' k v0 v1 (members (fst s') k)"
proof (cases t)
  case (Registering u)
  with assms show ?thesis
  proof (cases u)
    case (Reg_Check req)
    with assms Registering register_refusal_None [of req "fst s"] show ?thesis
      by (auto simp: members_def split: option.splits if_splits)
  next
    case (Reg_Insert req)
    with assms Registering register_insert_facts [of s env req] show ?thesis by (auto simp: members_def)
  qed (auto simp: split_beta)
next
  case (Running p)
  with assms turn_settles [of p k v0 v1 s env] show ?thesis by (auto simp: split_beta prod_eq_iff)
qed

text \<open>What a job learns from outside does not change while it runs.\<close>

fun steady_outside :: "'w env \<Rightarrow> 'w outside \<Rightarrow> job \<Rightarrow> 'w \<Rightarrow> bool" where
  "steady_outside env ou (Discover config) w \<longleftrightarrow>
     (\<forall>w'. fst (query_srv (ou_dig ou) (srv_name config) w') = fst (query_srv (ou_dig ou) (srv_name config) w))"
| "steady_outside env ou (Reload path) w \<longleftrightarrow>
     (\<forall>w'. config_from_file (\<lambda>p. read_to_string env p w') (ou_getenv ou) (ou_yaml ou) path
           = config_from_file (\<lambda>p. read_to_string env p w) (ou_getenv ou) (ou_yaml ou) path)"
| "steady_outside env ou _ w \<longleftrightarrow> True"

lemma start_job_settles:
  assumes "registry_ok r" and "steady_outside env ou j w"
  shows "task_settles (start_job env ou j) k (members r k) (members (fst (handler env ou j (r, w))) k) (members r k)"
proof (cases j)
  case (Register req)
  obtain reply sp r' w' where run: "register_server env req (r, w) = (reply, sp, (r', w'))" by (metis surj_pair)
  from register_server_run [OF assms(1) run] Register run show ?thesis
    by (auto simp: members_def Let_def split: if_splits)
next
  case (Deregister a)
  then show ?thesis
    using assms(1) by (auto simp: deregister_task_def deregister_server_leaf_at members_def rt.lookup_del)
qed (use assms in \<open>simp_all add: dns_task_settles crd_task_settles reload_task_settles\<close>)

text \<open>All tasks are well named, and the alias \<open>k\<close> is left to the \<open>i\<close>-th of them.\<close>

lemma evolves_get_leaf: "evolves r r' \<Longrightarrow> get_leaf k r' = get_leaf k r"
  by (simp add: evolves_def get_leaf_def)

interpretation own: rely_guarantee "task_turn env" job_other "\<lambda>s. registry_ok (fst s)"
  "\<lambda>j t s. task_well_named t \<and> (if j = i then task_settles t k v0 v1 (members (fst s) k) else task_avoids t k)"
  for env :: "'w env" and i k v0 v1
proof unfold_locales
  fix s s' :: "registry \<times> 'w" and j l t t' u
  assume ok: "registry_ok (fst s)" and turn: "task_turn env t s = (t', s')"
    and t: "task_well_named t \<and> (if j = i then task_settles t k v0 v1 (members (fst s) k) else task_avoids t k)"
  note after = task_turn_well_named [OF conjunct1 [OF t] ok turn] task_turn_settles [OF _ ok turn] task_turn_avoids [OF _ ok turn]
  show "registry_ok (fst s') \<and> task_well_named t' \<and>
      (if j = i then task_settles t' k v0 v1 (members (fst s') k) else task_avoids t' k)"
    using after t by (simp split: if_splits)
  assume "l \<noteq> j" "task_well_named u \<and> (if l = i then task_settles u k v0 v1 (members (fst s) k) else task_avoids u k)"
  then show "task_well_named u \<and> (if l = i then task_settles u k v0 v1 (members (fst s') k) else task_avoids u k)"
    using after(3) [of k] t by (auto simp: members_def split: if_splits)
qed (auto simp: job_other_def evolves_members intro: evolves_ok)

text \<open>All tasks leave the alias alone.\<close>

interpretation apart: rely_guarantee "task_turn env" job_other
  "\<lambda>s. registry_ok (fst s) \<and> get_leaf k (fst s) = a \<and> members (fst s) k = v"
  "\<lambda>j t s. task_well_named t \<and> task_avoids t k"
  for env :: "'w env" and k a v
proof unfold_locales
  fix s s' :: "registry \<times> 'w" and j t t'
  assume s: "registry_ok (fst s) \<and> get_leaf k (fst s) = a \<and> members (fst s) k = v"
    and t: "task_well_named t \<and> task_avoids t k" and turn: "task_turn env t s = (t', s')"
  show "(registry_ok (fst s') \<and> get_leaf k (fst s') = a \<and> members (fst s') k = v) \<and> task_well_named t' \<and> task_avoids t' k"
    using task_turn_well_named [OF conjunct1 [OF t] conjunct1 [OF s] turn] task_turn_avoids [OF conjunct2 [OF t] conjunct1 [OF s] turn] s
    by (simp add: members_def)
qed (auto simp: job_other_def evolves_members evolves_get_leaf intro: evolves_ok)

text \<open>C4: Overlap does not show where sources do not meet: however registrations, removals, polls, events of
  custom resources and reloads take their turns at the table, an alias that only one of them may touch
  is at every moment either as it was before or as that one's handler, run without interruption, makes
  it, and the latter once it is done.  In particular a reload never takes away, even for a moment, a
  leaf that the old and the new file both have.\<close>

theorem overlap_atomic_per_alias:
  assumes "registry_ok r"
    and "(job_step env)\<^sup>*\<^sup>* (map (start_job env ou) (before @ job # others), (r, w)) (ts, (r', w'))"
    and "\<not> list_ex (\<lambda>j. may_touch j k) (before @ others)" and "steady_outside env ou job w"
  shows "registry_ok r'
    \<and> (members r' k = members r k \<or> members r' k = members (fst (handler env ou job (r, w))) k)
    \<and> (if task_done (ts ! length before) then members r' k = members (fst (handler env ou job (r, w))) k else True)"
proof -
  let ?jobs = "before @ job # others"
  let ?v1 = "members (fst (handler env ou job (r, w))) k"
  have avoid: "task_avoids (start_job env ou (?jobs ! j)) k" if "j < length ?jobs" "j \<noteq> length before" for j
    using that assms(3) nth_mem [of j before] nth_mem [of "j - Suc (length before)" others]
    by (intro start_job_avoids) (auto simp: nth_append nth_Cons' list_ex_iff split: if_splits)
  have settle: "task_settles (start_job env ou job) k (members r k) ?v1 (members r k)"
    by (rule start_job_settles [OF assms(1,4)])
  have start: "task_well_named (map (start_job env ou) ?jobs ! j)
      \<and> (if j = length before then task_settles (map (start_job env ou) ?jobs ! j) k (members r k) ?v1 (members (fst (r, w)) k)
         else task_avoids (map (start_job env ou) ?jobs ! j) k)"
    if "j < length (map (start_job env ou) ?jobs)" for j
    using that avoid [of j] settle by (auto simp: start_job_well_named simp del: map_append list.map)
  have "registry_ok (fst (r, w))" using assms(1) by simp
  from own.run_keeps [OF assms(2) this start] have "registry_ok r'" "task_settles (ts ! length before) k (members r k) ?v1 (members r' k)"
    by (auto dest: spec [of _ "length before"])
  with task_settles_now [OF this(2)] show ?thesis by simp
qed

text \<open>No task goes on forever: whatever the others do in between, it has finitely many turns.\<close>

fun turns_left :: "reg_task \<Rightarrow> nat" where
  "turns_left (Reg_Check req) = 3"
| "turns_left (Reg_Insert req) = 2"
| "turns_left (Reg_Reply req) = 1"
| "turns_left (Reg_Done reply) = 0"

lemma reg_task_turn_left:
  "reg_task_turn env t s = (t', s') \<Longrightarrow> turns_left t \<noteq> 0 \<Longrightarrow> turns_left t' < turns_left t"
  by (cases t) (auto split: option.splits)

definition later_turn :: "'w env \<Rightarrow> 'w task \<Rightarrow> 'w task \<Rightarrow> bool" where
  "later_turn env t' t \<longleftrightarrow> \<not> task_done t \<and> (\<exists>s s'. task_turn env t s = (t', s'))"

lemma prog_ends: "Wellfounded.accp (later_turn env) (Running p)"
  by (induction p) (rule accpI, force simp: later_turn_def)+

lemma reg_task_ends: "Wellfounded.accp (later_turn env) (Registering u)"
proof (induction "turns_left u" arbitrary: u rule: less_induct)
  case less
  have "Wellfounded.accp (later_turn env) t'" if step: "later_turn env t' (Registering u)" for t'
  proof -
    obtain s s' where "task_turn env (Registering u) s = (t', s')" using step by (auto simp: later_turn_def)
    then obtain u' where u': "t' = Registering u'" "reg_task_turn env u s = (u', s')"
      by (cases "reg_task_turn env u s") auto
    moreover have "turns_left u \<noteq> 0" using step by (cases u) (auto simp: later_turn_def)
    ultimately show ?thesis using less reg_task_turn_left by blast
  qed
  then show ?case by (rule accpI)
qed

lemma task_turns_end: "wfp (later_turn env)"
proof (rule accp_wfpI, rule allI)
  show "Wellfounded.accp (later_turn env) t" for t by (cases t) (simp_all add: prog_ends reg_task_ends)
qed

definition sample_outside :: "nat outside" where
  "sample_outside =
     \<lparr>ou_dig = (\<lambda>name w. (Inl ''no dig'', w)), ou_kube = sample_kube, ou_getenv = (\<lambda>v. None), ou_yaml = one_server_yaml\<rparr>"

abbreviation file_env :: "nat env" where
  "file_env \<equiv> ok_env\<lparr>read_to_string := \<lambda>p w. Inr []\<rparr>"

text \<open>A reload of a file with the server \<open>k8s\<close> while the alias \<open>x\<close> is removed.\<close>

abbreviation reload_and_remove :: "nat task list \<times> registry \<times> nat" where
  "reload_and_remove \<equiv> schedule (task_turn file_env) [0, 1, 0, 0]
     (map (start_job file_env sample_outside) ([] @ Reload ''f'' # [Deregister ''x'']), (sample_registry, 0))"

theorem overlap_atomic_per_alias_witness:
  "task_done (fst reload_and_remove ! 0)
   \<and> members (fst (snd reload_and_remove)) ''k8s''
     = members (fst (handler file_env sample_outside (Reload ''f'') (sample_registry, 0))) ''k8s''"
proof -
  have run: "(job_step file_env)\<^sup>*\<^sup>* (map (start_job file_env sample_outside) ([] @ Reload ''f'' # [Deregister ''x'']), (sample_registry, 0))
      (fst reload_and_remove, (fst (snd reload_and_remove), snd (snd reload_and_remove)))"
    using schedule_run [of "(map (start_job file_env sample_outside) ([] @ Reload ''f'' # [Deregister ''x'']), (sample_registry, 0))"
        "[0, 1, 0, 0]" "task_turn file_env"] by simp
  have al: "aliases (del_leaf ''x'' sample_registry) = [''k8s'']"
    by (simp add: aliases_def del_leaf_def remove_leaf_def sample_registry_def put_leaf_def add_leaf_def with_pool_def hm_defs)
  have fin: "task_done (fst reload_and_remove ! 0)"
    by (simp add: sample_outside_def reload_task_def deregister_task_def one_server_loads rt.lookup_del al)
  from overlap_atomic_per_alias [OF sample_registry_ok run, of "''k8s''"] fin
  show ?thesis by (simp add: sample_outside_def)
qed

text \<open>C24: A leaf nobody has business with stays the very same entry, with its caches, its health and its
  session at the leaf, however the sources of other leaves overlap.\<close>

theorem overlap_leaves_others:
  assumes "registry_ok r" and "(job_step env)\<^sup>*\<^sup>* (map (start_job env ou) jobs, (r, w)) (ts, (r', w'))"
    and "\<not> list_ex (\<lambda>j. may_touch j k) jobs"
  shows "registry_ok r' \<and> get_leaf k r' = get_leaf k r \<and> members r' k = members r k"
proof -
  have "task_avoids (start_job env ou j) k" if "j \<in> set jobs" for j
    using that assms(3) by (auto simp: list_ex_iff intro: start_job_avoids)
  then show ?thesis
    using apart.run_keeps [OF assms(2), of k "get_leaf k r" "members r k"] assms(1) by (simp add: start_job_well_named)
qed

abbreviation register_and_remove :: "nat task list \<times> registry \<times> nat" where
  "register_and_remove \<equiv> schedule (task_turn file_env) [0, 1, 0, 0]
     (map (start_job file_env sample_outside) [Register sample_register, Deregister ''x''], (sample_registry, 0))"

theorem overlap_leaves_others_witness:
  "get_leaf ''k8s'' (fst (snd register_and_remove)) = get_leaf ''k8s'' sample_registry
   \<and> members (fst (snd register_and_remove)) ''k8s'' = members sample_registry ''k8s''"
proof -
  let ?jobs = "[Register sample_register, Deregister ''x'']"
  have run: "(job_step file_env)\<^sup>*\<^sup>* (map (start_job file_env sample_outside) ?jobs, (sample_registry, 0))
      (fst register_and_remove, (fst (snd register_and_remove), snd (snd register_and_remove)))"
    using schedule_run [of "(map (start_job file_env sample_outside) ?jobs, (sample_registry, 0))" "[0, 1, 0, 0]" "task_turn file_env"]
    by simp
  have free: "\<not> list_ex (\<lambda>j. may_touch j ''k8s'') ?jobs" by (simp add: sample_register_def)
  from overlap_leaves_others [OF sample_registry_ok run free] show ?thesis by (simp only: simp_thms)
qed

end
