(* ===== verification/Spec2Isabelle.thy ===== *)
theory Spec2Isabelle
  imports Fed_System Fed_Cli Fed_Stream Fed_Observe Fed_Tasks
begin

text \<open>
  A model of \<open>mcp-federation\<close>, a server that joins several MCP servers (the leaves) into one: clients
  talk JSON-RPC to the federation, which publishes the leaves' tools, resources and prompts under
  prefixed names and forwards calls to the leaf a name starts with.

  \<^bold>\<open>Parts and theories.\<close>  All sources are under \<open>src/src\<close>.
  \<^item> \<open>Fed_Prelude\<close>, \<open>Fed_Json\<close>, \<open>Fed_F64\<close>, \<open>Fed_Env\<close>: what the program uses of Rust and its libraries:
    strings as UTF-8 bytes, hash maps (locale \<open>hash_map\<close>), \<open>serde_json\<close> values, binary64 arithmetic with
    rounding, and the record of everything outside the program (HTTP, files, clock).  \<open>Fed_Pool\<close>: tasks of
    the runtime that take turns on shared state.
  \<^item> \<open>Fed_Protocol\<close> (\<open>error.rs\<close>, \<open>mcp/protocol.rs\<close>): errors and JSON-RPC messages.
  \<^item> \<open>Fed_Config\<close> (\<open>config.rs\<close>): settings and defaults, expansion of variables, validation.
  \<^item> \<open>Fed_Rbac\<close> (\<open>rbac.rs\<close>), \<open>Fed_RateLimit\<close> (\<open>rate_limit.rs\<close>), \<open>Fed_Session\<close> (\<open>session.rs\<close>),
    \<open>Fed_Notifications\<close> (\<open>notifications.rs\<close>): who a caller is and may use, how often it may call, its
    sessions, and the table of subscribers.
  \<^item> \<open>Fed_LeafClient\<close> (\<open>leaf_client.rs\<close>): the client of one leaf: exchanges, sessions and retry, the
    JSON-RPC calls, the reader of server-sent events.
  \<^item> \<open>Fed_Registry\<close> (\<open>registry.rs\<close>): the table of leaves with their health and caches.
  \<^item> \<open>Fed_Aggregator\<close> (\<open>aggregator.rs\<close>), \<open>Fed_Router\<close> (\<open>router.rs\<close>): published names and listings; the
    three routes and the federation's own tools.
  \<^item> \<open>Fed_Health\<close> (\<open>health.rs\<close>): the monitor of a leaf, with circuit breaker and back-off.
  \<^item> \<open>Fed_Server\<close> (\<open>server.rs\<close>): dispatch and handlers, \<open>POST\<close>, \<open>GET\<close> and \<open>DELETE /mcp\<close>, stdio, the
    status page.
  \<^item> \<open>Fed_Api\<close> (\<open>api.rs\<close>), \<open>Fed_Dns\<close> (\<open>dns_discovery.rs\<close>), \<open>Fed_Crd\<close> (\<open>crd_discovery.rs\<close>): the three
    sources that change the table while the server runs; \<open>Fed_Calendar\<close> has the dates of the last.
  \<^item> \<open>Fed_Main\<close> (\<open>main.rs\<close>): authentication, reload on SIGHUP, the state at start-up.
  \<^item> \<open>Fed_App\<close> (\<open>build_router\<close> in \<open>main.rs\<close>, \<open>router\<close> in \<open>api.rs\<close>): the HTTP application, every route with
    its methods behind the token check.
  \<^item> \<open>Fed_Cli\<close> (\<open>main\<close>, \<open>run_http\<close>, \<open>run_https\<close>, \<open>print_tools_table\<close> in \<open>main.rs\<close>): the program from its
    command line to its exit status: checking a file, listing the tools, what it serves with which
    background tasks, and how serving ends.
  \<^item> \<open>Fed_Tasks\<close>: the sources of leaves as programs over the operations that take the lock of the table,
    each proved equal to its handler when it runs alone, and their interleavings (\<open>job_step\<close>).
  \<^item> \<open>Fed_Stream\<close>: the way of a notification from a leaf's stream through the broker to the clients.
  \<^item> \<open>Fed_Observe\<close> (the reporting lines of \<open>server.rs\<close>, \<open>aggregator.rs\<close>, \<open>health.rs\<close>): metrics and audit
    events, each as a function of the arguments of the operation that emits it.
  \<^item> \<open>Fed_System\<close>: the steps of the whole system, its invariant, who may change what, and what a run does
    to the sessions (\<open>session_trace\<close>).
  \<^item> this theory: the properties that span the parts.

  \<^bold>\<open>State and effects.\<close>  Each struct is a record, each enum a datatype, each method a function from
  the state to its result and the new state.  A leaf entry is shared (\<open>Arc<LeafEntry>\<close>): the registry
  has a heap of entries and maps aliases to addresses, so a task that holds an entry still works on it
  after it has left the table.  The world outside is a value of an arbitrary type that every external
  call takes and returns; fallible code returns a sum with the error on the left.  A task that a handler spawns is a
  function of its own (\<open>warm_leaf\<close>, \<open>crd_status_task\<close>, \<open>cache_tools\<close>) and runs as a later step.

  \<^bold>\<open>Interleaving.\<close>  \<open>reg_step\<close> (in \<open>Fed_Registry\<close>) interleaves single updates of the registry, as the
  locks of the code allow; \<open>fed_step\<close> (in \<open>Fed_System\<close>) interleaves whole handlers and rounds of tasks,
  each step labelled with its origin, and \<open>task_step\<close> counts besides which tasks are there to run.
  \<open>publish\<close> has an explicit gap between its two locked halves, and \<open>api_step\<close> (in \<open>Fed_Api\<close>) takes a
  registration apart at the three points where it waits for the lock.  \<open>job_step\<close> (in \<open>Fed_Tasks\<close>) does so
  for all sources of leaves together; its facts are proved by rely and guarantee (locale of that name): each
  program says which aliases it leaves alone (\<open>avoids\<close>), and a weakest precondition (\<open>settles\<close>) tells what
  it does to an alias the others leave alone.  \<open>initialize_all\<close> and
  \<open>refresh_all_tools\<close> run their parallel tasks one after the other: each works on an entry of its own.

  \<^bold>\<open>Parameters.\<close>  Code outside the repository is an argument: the HTTP client, files, clocks, the YAML and
  JSON text readers and printers, \<open>dig\<close>, the Kubernetes client, the token, base64 and UUID libraries,
  the web framework's readers of bodies and paths, channels, the operating system as a server process
  sees it (\<open>os\<close>), Unicode lower-casing and \<open>f64::powi\<close>.  Properties that depend on one state what they
  rely on, such as \<open>token_verifies\<close> for the token library and \<open>channel_laws\<close> for channels, and their
  witnesses instantiate it.

  \<^bold>\<open>Loops and bounds.\<close>  Every definition is total and no fuel is used.  Loops over data are structural;
  the endless loops of background tasks are modelled by one round (\<open>monitor_round\<close>, \<open>poll_once\<close>,
  \<open>prune_task_round\<close>, \<open>on_sighup\<close>) and quantified over the number of rounds or over histories.
  Counters, ports, timeouts and status codes keep their machine width; additions on them wrap around as
  in a release build (the counters of failures, the expiry of a session), where a build
  with overflow checks panics.

  \<^bold>\<open>Interfaces.\<close>  \<open>leaf_table\<close> (what the sources of leaves rely on, interpreted on the registry),
  \<open>namespaced_items\<close> (what tools, resources and prompts share when published, interpreted three times)
  and \<open>leaf_route\<close> (the contract of a route, interpreted on the three routes); \<open>rely_guarantee\<close> (what every
  task of a pool keeps and respects, interpreted on overlapping registrations and twice on overlapping
  sources of leaves).

  \<^bold>\<open>What is shown.\<close>
  \<^item> The whole: the invariant of every reachable state; a tool call followed from the HTTP request to
    the leaf and back; a session followed from the reply that hands it out to the one that refuses it,
    over any run; the refinement of an abstract table of members by every step, which says what each
    origin may change; and that the health of a leaf added late is never looked at again (this theory).
    A notification followed from the bytes a leaf sends to the channels of the clients (\<open>Fed_Stream\<close>).
  \<^item> Security: exactly the known tokens get in, nothing happens without one, a client is confined to its
    leaves' tools though not in the registry API, a refused request has no effect on any leaf, and
    the audit trail is complete (\<open>Fed_Main\<close>, \<open>Fed_App\<close>, \<open>Fed_Server\<close>, \<open>Fed_Session\<close>, \<open>Fed_Observe\<close>).
  \<^item> Overlap: registrations and removals that interleave keep the table sound, and a registration changes
    it only when it is accepted, though two of them can both be told that they registered the same alias
    (\<open>Fed_Api\<close>); where two sources do not meet at an alias, each looks atomic there, and every task ends
    (\<open>Fed_Tasks\<close>).
  \<^item> Limits: bounds, burst and refill of the token buckets in floating-point arithmetic, and their
    independence (\<open>Fed_RateLimit\<close>); the traffic of a request and the back-off of the monitor.
  \<^item> Routing: names split back as published, listings are exact, refusals have no effect (\<open>Fed_Aggregator\<close>,
    \<open>Fed_Router\<close>).
  \<^item> Life of a leaf: start-up, refresh, circuit breaker, registration, discovery and reload, each as an
    equation on the table, and that the discovery of a custom resource settles, in aliases and settings,
    though every pass makes a fresh entry (\<open>Fed_Cli\<close>,
    \<open>Fed_Registry\<close>, \<open>Fed_Health\<close>, \<open>Fed_Api\<close>, \<open>Fed_Dns\<close>, \<open>Fed_Crd\<close>, \<open>Fed_Main\<close>).
  \<^item> Text: expansion of variables, event streams, one reply per request and per line, the table of
    tools; the date of a day against a calendar that counts (\<open>Fed_Calendar\<close>).

  \<^item> Process: the exit status of a server that cannot listen (\<open>Fed_Cli\<close>).

  \<^bold>\<open>Not modelled.\<close>  Trace spans, log lines other than audit events, the text format of the metrics and
  the API description, on which nothing else depends; the panic of the HTTP library's constructor when
  it cannot build a client (\<open>LeafClient::new\<close>); what sockets, TLS, signals and logging do inside
  their libraries; constructors that only tests use, the module declarations of \<open>lib.rs\<close> and
  \<open>mcp/mod.rs\<close>, and the test helpers.
\<close>

section \<open>Properties of every reachable state\<close>

text \<open>C2: Whatever the clients, the operators, the discovery sources and the leaves do, in every state
  the server can reach from its start: an alias leads to the leaf configured under it and its client
  talks to that leaf's own URL; no client's bucket leaves the range from zero to the configured
  burst; the origins allowed and the lifetime of sessions are the configured ones; and sessions are
  both signed and verified with the key of the configuration, that is the decoded session secret if one
  is set and decodes to a non-empty string, and the random key drawn at the start otherwise.\<close>

theorem federation_invariant:
  assumes "fed_reachable ap kube dig (start_federation env b64 rnd config w0) (st, w)"
  shows "(case leaf_at (fd_registry st) a of
            None \<Rightarrow> True
          | Some e \<Rightarrow> sc_alias (le_config e) = a \<and> lc_alias (le_client e) = a
                       \<and> lc_url (le_client e) = sc_url (le_config e)
                       \<and> lc_transport (le_client e) = sc_transport (le_config e))
    \<and> (case hm_get (buckets (fd_rate_limiter st)) client of
            None \<Rightarrow> True
          | Some b \<Rightarrow> 0 \<le> tokens b
                       \<and> tokens b \<le> f64_of_nat (unat (burst_size (fs_rate_limit (fc_federation config)))))
    \<and> fd_allowed_origins st = fs_allowed_origins (fc_federation config)
    \<and> sm_ttl (fd_sessions st) = duration_from_secs (session_ttl_seconds (fc_federation config))
    \<and> encoding_key (fd_sessions st) = decoding_key (fd_sessions st)
    \<and> encoding_key (fd_sessions st) =
         (case fs_session_secret (fc_federation config) of
            Some secret \<Rightarrow> (case b64 secret of Inr bytes \<Rightarrow> if bytes = [] then rnd else bytes | Inl err \<Rightarrow> rnd)
          | None \<Rightarrow> rnd)"
proof -
  have key: "encoding_key (fd_sessions st) =
         (case fs_session_secret (fc_federation config) of
            Some secret \<Rightarrow> (case b64 secret of Inr bytes \<Rightarrow> if bytes = [] then rnd else bytes | Inl err \<Rightarrow> rnd)
          | None \<Rightarrow> rnd)"
    using reachable_keys(1) [OF assms]
    by (simp add: start_federation_def session_manager_new_def Let_def split_beta
        split: option.split sum.split)
  have ok: "fed_ok config st" using reachable_ok [OF assms] by simp
  have "sc_alias (le_config e) = a \<and> lc_alias (le_client e) = a
      \<and> lc_url (le_client e) = sc_url (le_config e) \<and> lc_transport (le_client e) = sc_transport (le_config e)"
    if "leaf_at (fd_registry st) a = Some e" for e
    using ok rt.lookup_key [OF _ that] by (auto simp: fed_ok_def entry_ok_def)
  moreover have "0 \<le> tokens b \<and> tokens b \<le> f64_of_nat (unat (burst_size (fs_rate_limit (fc_federation config))))"
    if "hm_get (buckets (fd_rate_limiter st)) client = Some b" for b
    using ok that by (intro limiter_tokens) (auto simp: fed_ok_def settings_ok_def)
  ultimately show ?thesis
    using ok key [symmetric] by (auto simp: fed_ok_def settings_ok_def manager_ok_def split: option.split)
qed

text \<open>A server started without leaves, to which an operator then adds one.\<close>

definition empty_config :: federation_config where
  "empty_config = \<lparr>fc_federation = default_federation_settings, fc_servers = []\<rparr>"

abbreviation empty_start :: "nat federation \<times> nat" where
  "empty_start \<equiv> start_federation ok_env Inr ''key'' empty_config 0"

text \<open>The same server with a session secret of its own.\<close>

abbreviation keyed_start :: "nat federation \<times> nat" where
  "keyed_start \<equiv> start_federation ok_env Inr ''key''
     (empty_config\<lparr>fc_federation := (fc_federation empty_config)\<lparr>fs_session_secret := Some ''c2VjcmV0''\<rparr>\<rparr>) 0"

abbreviation add_github :: http_call where
  "add_github \<equiv> sample_http ''POST'' ''/api/v1/servers'' ''root'' []"

abbreviation one_leaf :: "nat federation \<times> nat" where
  "one_leaf \<equiv> snd (http_app (sample_app [''github'']) add_github empty_start)"

abbreviation no_dig :: "nat dig" where
  "no_dig \<equiv> \<lambda>name w. (Inl ''no dig'', w)"

lemma empty_start_eq:
  "empty_start = (\<lparr>fd_registry = with_pool (fs_connection_pool default_federation_settings),
     fd_tool_cache_ttl = duration_from_secs (tool_cache_ttl_seconds default_federation_settings),
     fd_sessions = session_manager_new Inr ''key'' (session_ttl_seconds default_federation_settings)
                     (fs_session_secret default_federation_settings),
     fd_allowed_origins = fs_allowed_origins default_federation_settings,
     fd_rate_limiter = rate_limiter_new (fs_rate_limit default_federation_settings),
     fd_notifications = broker_new, fd_tasks = []\<rparr>, 0)"
  by (simp add: start_federation_def empty_config_def from_configs_with_pool_def initialize_all_def
      all_leaves_def with_pool_def hm_empty_def)

lemma one_leaf_reachable: "fed_reachable (sample_app [''github'']) sample_kube no_dig empty_start one_leaf"
  by (rule reach_step [OF reach_start fed_http])

lemma one_leaf_eq: "one_leaf = set_registry (snd (snd (register_server ok_env sample_register
     (fd_registry (fst empty_start), snd empty_start)))) empty_start"
proof -
  have "auth_middleware ok_env (snd empty_start) (ap_auth (sample_app [''github''])) ''/api/v1/servers''
      (Some ''Bearer root'') = Some (Some admin_ctx)"
    by (simp add: auth_middleware_def skip_auth_def strip_prefix_def resolve_def)
  then show ?thesis
    by (simp add: http_app_def endpoint_def api_router_def post_servers_def strip_prefix_def split_beta)
qed

lemma one_leaf_at:
  "leaf_at (fd_registry (fst one_leaf)) ''github'' =
     Some (leaf_new_with_pool ok_env 0 (register_config sample_register)
       (fs_connection_pool default_federation_settings))"
proof -
  let ?pool = "fs_connection_pool default_federation_settings"
  let ?e = "leaf_new_with_pool ok_env (0 :: nat) (register_config sample_register) ?pool"
  have free: "register_refusal sample_register (with_pool ?pool) = None"
    using sample_register_ok by (simp add: register_refusal_None)
  have al: "rr_alias sample_register = ''github''" by (simp add: sample_register_def)
  have pool: "pool_config (with_pool ?pool) = ?pool" by (simp add: with_pool_def)
  have "snd (snd (register_server ok_env sample_register (with_pool ?pool, 0)))
      = (put_leaf ''github'' ?e (with_pool ?pool), 0)"
    using free pool by (simp add: register_server_def register_insert_put Let_def al)
  then show ?thesis
    unfolding one_leaf_eq unfolding empty_start_eq by (simp add: set_registry_def rt.lookup_put with_pool_ok)
qed

theorem federation_invariant_witness:
  "(case leaf_at (fd_registry (fst one_leaf)) ''github'' of
      None \<Rightarrow> False | Some e \<Rightarrow> lc_url (le_client e) = sc_url (le_config e))
   \<and> encoding_key (fd_sessions (fst one_leaf)) = ''key'' \<and> decoding_key (fd_sessions (fst one_leaf)) = ''key''
   \<and> encoding_key (fd_sessions (fst keyed_start)) = ''c2VjcmV0''
   \<and> decoding_key (fd_sessions (fst keyed_start)) = ''c2VjcmV0''"
proof -
  have "fed_reachable (sample_app [''github'']) sample_kube no_dig empty_start (fst one_leaf, snd one_leaf)"
    using one_leaf_reachable by simp
  note open_key = federation_invariant [OF this, of "''github''" "''c''"]
  have "fed_reachable (sample_app [''github'']) sample_kube no_dig keyed_start (fst keyed_start, snd keyed_start)"
    using reach_start by simp
  note own_key = federation_invariant [OF this, of "''github''" "''c''"]
  show ?thesis
    using one_leaf_at open_key own_key by (auto simp: empty_config_def default_federation_settings_def)
qed

text \<open>C3: Membership is owned: seen as the map from aliases to settings, the federation refines the
  abstract system in which a client's request never changes the map except through the registry API (a
  registration adds one fresh, well-formed alias; a removal takes one away), a DNS poll adds and
  removes aliases of its own prefix only and never alters one, an event of a custom resource affects
  only the alias derived from the object, a reload either changes nothing or makes the map agree with
  a validated file, and nothing in the background changes it.\<close>

theorem membership_refinement:
  assumes "fed_reachable ap kube dig (start_federation env b64 rnd config w0) s"
    and "fed_step ap kube dig src s s'"
  shows "allowed_change src (members (fd_registry (fst s))) (members (fd_registry (fst s')))"
  using fed_step_members [OF assms(2)] reachable_ok [OF assms(1)] by (simp add: fed_ok_def)

theorem membership_refinement_witness:
  "members (fd_registry (fst one_leaf)) ''github'' \<noteq> None
   \<and> allowed_change (Request (sample_http ''DELETE'' ''/api/v1/servers/github'' ''team'' []))
       (members (fd_registry (fst one_leaf)))
       (members (fd_registry (fst (snd (http_app (sample_app [''github''])
          (sample_http ''DELETE'' ''/api/v1/servers/github'' ''team'' []) one_leaf)))))"
  using membership_refinement [OF one_leaf_reachable fed_http,
      where c1 = "sample_http ''DELETE'' ''/api/v1/servers/github'' ''team'' []"] one_leaf_at
  by (simp del: allowed_change.simps)

text \<open>C17: A leaf added after start-up is not monitored: once the one warm-up of an entry that was added later
  (over the registry API, by either discovery, or by a reload that changed its settings) is over, its
  health, its failure count and the time of its last check never change again, whatever happens; an
  entry whose warm-up failed stays unhealthy.\<close>

theorem late_leaf_health_frozen:
  assumes "s0 = start_federation env b64 rnd config w0"
    and "(task_step ap kube dig (start_health_monitor (fd_registry (fst s0))))\<^sup>*\<^sup>* (pending, s) (pending', s')"
    and "length (leaf_heap (fd_registry (fst s0))) \<le> a" and "a < length (leaf_heap (fd_registry (fst s)))"
    and "a \<notin> set pending"
  shows "vitals (entry (fd_registry (fst s')) a) = vitals (entry (fd_registry (fst s)) a)"
proof -
  have "fed_ok config (fst s0)" unfolding assms(1) by (rule start_ok)
  then have "registry_ok (fd_registry (fst s0))" by (simp add: fed_ok_def)
  then have "a \<notin> set (start_health_monitor (fd_registry (fst s0)))"
    using monitors_in_heap [of "fd_registry (fst s0)" a] assms(3) by auto
  from task_run_health [OF assms(2) this] assms(4,5) show ?thesis by simp
qed

abbreviation warmed :: "nat federation \<times> nat" where
  "warmed \<equiv> on_registry (warm_leaf ok_env True 0) one_leaf"

abbreviation warmed_reload :: "nat federation \<times> nat" where
  "warmed_reload \<equiv> on_registry (on_sighup ok_env (\<lambda>v. None) one_server_yaml ''f'') warmed"

theorem late_leaf_health_frozen_witness:
  "vitals (entry (fd_registry (fst warmed_reload)) 0) = vitals (entry (fd_registry (fst warmed)) 0)"
proof -
  let ?ap = "sample_app [''github'']"
  have heap: "length (leaf_heap (fd_registry (fst empty_start))) = 0"
    unfolding empty_start_eq by (simp add: with_pool_def)
  have "0 < length (leaf_heap (fd_registry (fst one_leaf)))"
    using one_leaf_reachable reachable_ok [of ?ap sample_kube no_dig ok_env Inr "''key''" empty_config 0 one_leaf] one_leaf_at
    by (auto simp: fed_ok_def registry_ok_def leaf_at_def)
  then have len: "0 < length (leaf_heap (fd_registry (fst warmed)))"
    using touches_warm_leaf [of 0 "(fd_registry (fst one_leaf), snd one_leaf)" ok_env True]
    by (simp add: touches_def)
  have "fed_step ?ap sample_kube no_dig Sighup warmed warmed_reload"
    using fed_sighup [of ?ap sample_kube no_dig warmed] by simp
  then have "task_step ?ap sample_kube no_dig (start_health_monitor (fd_registry (fst empty_start)))
      ([], warmed) (pending_after [] Sighup warmed warmed_reload, warmed_reload)"
    by (rule task_step) simp
  from late_leaf_health_frozen [OF refl r_into_rtranclp [where r = "task_step _ _ _ _", OF this], of 0] heap len
  show ?thesis by simp
qed

section \<open>A session from end to end\<close>


text \<open>A client that opens a session, and one that ends it; the body of a request is its method.\<close>

definition session_app :: "(nat, nat) app" where
  "session_app = (sample_app [])
     \<lparr>ap_srv := sample_srv\<lparr>sv_jwt := one_token_lib (new_claims ''u'' 100 None (fd_sessions (fst empty_start)))\<rparr>,
      ap_rpc_body := \<lambda>h b. Inr \<lparr>rq_jsonrpc = ''2.0'', rq_id = None, rq_method = b, rq_params = JNull\<rparr>\<rparr>"

definition session_call :: "string \<Rightarrow> string \<Rightarrow> http_call" where
  "session_call m body =
     \<lparr>hq_method = m, hq_path = ''/mcp'',
      hq_headers = (\<lambda>k. if k = ''authorization'' then Some ''Bearer root''
                         else if k = MCP_SESSION_HEADER then Some ''u'' else None), hq_body = body\<rparr>"



lemma session_sample [simp]:
  "hq_method (session_call m b) = m" "hq_path (session_call m b) = ''/mcp''" "hq_body (session_call m b) = b"
  "hq_headers (session_call m b) MCP_SESSION_HEADER = Some ''u''"
  "hq_headers (session_call m b) ''authorization'' = Some ''Bearer root''"
  "sv_env (ap_srv session_app) = ok_env" "sv_uuid (ap_srv session_app) w = (''u'', w)" "sv_unix (ap_srv session_app) w = 100"
  "ap_rpc_body session_app h b = Inr \<lparr>rq_jsonrpc = ''2.0'', rq_id = None, rq_method = b, rq_params = JNull\<rparr>"
  "auth_middleware env w (ap_auth session_app) ''/mcp'' (Some ''Bearer root'') = Some (Some admin_ctx)"
  by (simp_all add: session_call_def session_app_def MCP_SESSION_HEADER_def auth_middleware_def skip_auth_def
      resolve_token_def resolve_def strip_prefix_def sample_app_def)




section \<open>A call from end to end\<close>

text \<open>The body of a reply to \<open>POST /mcp\<close>, as JSON or as one server-sent event.\<close>

definition mcp_body :: "('w, 'tx) srv \<Rightarrow> headers \<Rightarrow> json_rpc_response \<Rightarrow> reply_body" where
  "mcp_body sv h response =
     (if accepts_sse h then SseBody (sv_to_string sv (json_rpc_response_to_json response))
      else JsonBody response)"

lemma handle_mcp_passed:
  assumes "check_origin (fd_allowed_origins st) h = Inr ()"
    and "session_gate sv request (extract_session_id h) (st, w) = Inr st1"
    and "check (client_label ctx) (clock (sv_env sv) w) (sv_created sv w) (fd_rate_limiter st1) = (True, l)"
    and "rq_method request \<noteq> ''initialize''"
    and "dispatch sv request (extract_session_id h) ctx (st1\<lparr>fd_rate_limiter := l\<rparr>, w) = (response, s')"
  shows "handle_mcp sv h (Some ctx) request (st, w) =
     (\<lparr>rp_status = 200, rp_session = None, rp_body = mcp_body sv h response\<rparr>, s')"
  using assms by (simp add: handle_mcp_def Let_def mcp_body_def open_session_def)

text \<open>C1: From end to end: in every reachable state, a tool call that passes authentication, the
  origin check, the session check and the rate limit, made by a client that may use the leaf, for
  the published name of a tool of a healthy leaf, is forwarded to that leaf under the tool's own
  name, where the leaf's alias is routable (with an underscore added it does not contain the separator)
  and is not the name \<open>federation\<close> of the federation's own tools; the reply carries the leaf's result, or its error, and only that leaf's entry changes.\<close>

theorem tool_call_end_to_end:
  assumes "fed_reachable ap kube dig (start_federation env b64 rnd config w0) (st, w)"
    and "leaf_at (fd_registry st) a = Some e" and "is_healthy e"
    and "alias_routable a" and "a \<noteq> ''federation''"
    and "hq_method c = ''POST''" and "hq_path c = ''/mcp''"
    and "auth_middleware (sv_env (ap_srv ap)) w (ap_auth ap) ''/mcp'' (hq_headers c ''authorization'') = Some (Some ctx)"
    and "allows_alias ctx a"
    and "ap_rpc_body ap (hq_headers c) (hq_body c) = Inr request"
    and "check_origin (fd_allowed_origins st) (hq_headers c) = Inr ()"
    and "session_gate (ap_srv ap) request (extract_session_id (hq_headers c)) (st, w) = Inr st1"
    and "check (client_label ctx) (clock (sv_env (ap_srv ap)) w) (sv_created (ap_srv ap) w) (fd_rate_limiter st1) = (True, l)"
    and "rq_method request = ''tools/call''"
    and "param_str request ''name'' = a @ NAMESPACE_SEPARATOR @ n"
    and "call_tool (sv_env (ap_srv ap)) n (json_index (rq_params request) ''arguments'') (le_client e, w) = (res, (c', w'))"
  shows "\<exists>st'. http_app ap c (st, w) =
            (McpReply \<lparr>rp_status = 200, rp_session = None,
              rp_body = mcp_body (ap_srv ap) (hq_headers c) (case res of
                          Inr v \<Rightarrow> success_response request v
                        | Inl err \<Rightarrow> error_response request (-32000) (error_to_string err))\<rparr>, (st', w'))
          \<and> leaf_at (fd_registry st') = (leaf_at (fd_registry st))(a \<mapsto> e\<lparr>le_client := c'\<rparr>)"
proof -
  let ?sv = "ap_srv ap"
  have ok: "registry_ok (fd_registry st)" using reachable_ok [OF assms(1)] by (simp add: fed_ok_def)
  have reg: "fd_registry st1 = fd_registry st" using session_gate_registry [OF assms(12)] by simp
  let ?args = "json_index (rq_params request) ''arguments''"
  obtain r' where r': "route_tool_call (sv_env ?sv) (sv_lower ?sv) (a @ NAMESPACE_SEPARATOR @ n) ?args
        (fd_registry st, w) = (res, (r', w'))"
      "leaf_at r' = (leaf_at (fd_registry st))(a \<mapsto> e\<lparr>le_client := c'\<rparr>)"
    using tr.route_published [OF ok assms(2-5,16)] by blast
  have "dispatch ?sv request (extract_session_id (hq_headers c)) ctx (st1\<lparr>fd_rate_limiter := l\<rparr>, w) =
      (case res of Inr v \<Rightarrow> success_response request v
        | Inl err \<Rightarrow> error_response request (-32000) (error_to_string err),
       (st1\<lparr>fd_rate_limiter := l, fd_registry := r'\<rparr>, w'))"
    using assms(9,14,15) r'(1) parse_routable [OF assms(4), of n] reg
    by (simp add: dispatch_def handle_tools_call_def respond_route_def Let_def)
  from handle_mcp_passed [OF assms(11,12,13) _ this] r'(2) assms(6-8,10,14) show ?thesis
    by (simp add: http_app_def endpoint_def mcp_endpoint_def)
qed

theorem tool_call_end_to_end_witness:
  "\<exists>st' w' body. http_app (sample_app [''github'']) (sample_http ''POST'' ''/mcp'' ''team'' ''github__pods'') one_leaf
     = (McpReply \<lparr>rp_status = 200, rp_session = None, rp_body = body\<rparr>, (st', w'))"
proof -
  let ?ap = "sample_app [''github'']" and ?c = "sample_http ''POST'' ''/mcp'' ''team'' ''github__pods''"
  let ?e = "leaf_new_with_pool ok_env (0 :: nat) (register_config sample_register)
       (fs_connection_pool default_federation_settings)"
  let ?ctx = "\<lparr>client_id = Some (''client-'' @ show_nat 0), allowed_servers = Some [''github'']\<rparr>"
  have reach: "fed_reachable ?ap sample_kube no_dig empty_start (fst one_leaf, snd one_leaf)"
    using one_leaf_reachable by simp
  obtain res c' w' where call: "call_tool (sv_env (ap_srv ?ap)) ''pods''
      (json_index (rq_params (sample_call ''github__pods'')) ''arguments'') (le_client ?e, snd one_leaf)
      = (res, (c', w'))" by (metis surj_pair)
  have healthy: "is_healthy ?e" by (simp add: leaf_new_with_pool_def is_healthy_def)
  have rout: "alias_routable ''github''" by (simp add: alias_routable_def str_contains_def)
  have kept: "fd_rate_limiter (fst one_leaf) = fd_rate_limiter (fst empty_start)"
    "fd_allowed_origins (fst one_leaf) = []"
    unfolding one_leaf_eq unfolding empty_start_eq
    by (simp_all add: set_registry_def default_federation_settings_def)
  have lim: "check (client_label ?ctx) (clock (sv_env (ap_srv ?ap)) (snd one_leaf))
      (sv_created (ap_srv ?ap) (snd one_leaf)) (fd_rate_limiter (fst one_leaf)) = (True, fd_rate_limiter (fst one_leaf))"
    unfolding kept
    by (simp add: check_def empty_start_eq rate_limiter_new_def default_federation_settings_def
        default_rate_limit_config_def)
  have org: "check_origin (fd_allowed_origins (fst one_leaf)) (hq_headers ?c) = Inr ()"
    unfolding kept by (simp add: check_origin_def)
  have mid: "auth_middleware (sv_env (ap_srv ?ap)) (snd one_leaf) (ap_auth ?ap) ''/mcp'' (hq_headers ?c ''authorization'')
      = Some (Some ?ctx)"
    by (simp add: auth_middleware_def skip_auth_def strip_prefix_def resolve_def)
  have gate: "session_gate (ap_srv ?ap) (sample_call ''github__pods'') (extract_session_id (hq_headers ?c))
      (fst one_leaf, snd one_leaf) = Inr (fst one_leaf)"
    by (simp add: session_gate_def extract_session_id_def MCP_SESSION_HEADER_def sample_http_def)
  have nm: "param_str (sample_call ''github__pods'') ''name'' = ''github'' @ NAMESPACE_SEPARATOR @ ''pods''"
    by (simp add: NAMESPACE_SEPARATOR_def)
  from tool_call_end_to_end [OF reach one_leaf_at healthy rout _ _ _ mid _ _ org gate lim _ nm call]
  show ?thesis by (auto simp: allows_alias_def)
qed

end
